theory Spec2Isabelle
  imports Main "HOL-Library.Sublist" "HOL-Library.List_Lexorder" "HOL-Library.Char_ord"
begin

section \<open>Strings and path names\<close>

text \<open>
  Python strings are modelled as \<open>string\<close>; the order on them (\<open><\<close>, \<open>sorted\<close>) is the
  lexicographic order on character codes, as in Python. File names are taken to be ASCII.
\<close>

text \<open>\<open>s.split('/')\<close>: the components between slashes, empty ones included.\<close>

fun split_slash :: "string \<Rightarrow> string list" where
  "split_slash [] = [[]]"
| "split_slash (c # cs) =
     (if c = CHR ''/'' then [] # split_slash cs
      else (case split_slash cs of [] \<Rightarrow> [[c]] | x # xs \<Rightarrow> (c # x) # xs))"

text \<open>\<open>'/'.join(parts)\<close>.\<close>

fun join_slash :: "string list \<Rightarrow> string" where
  "join_slash [] = []"
| "join_slash [x] = x"
| "join_slash (x # y # ys) = x @ ''/'' @ join_slash (y # ys)"

text \<open>\<open>os.path.basename(p)\<close>: what follows the last slash.\<close>

definition os_path_basename :: "string \<Rightarrow> string" where
  "os_path_basename p = last (split_slash p)"

text \<open>\<open>os.path.join(a, b)\<close> for two arguments (posixpath).\<close>

definition os_path_join :: "string \<Rightarrow> string \<Rightarrow> string" where
  "os_path_join a b =
     (if take 1 b = ''/'' then b
      else if a = [] \<or> last a = CHR ''/'' then a @ b
      else a @ ''/'' @ b)"

text \<open>\<open>s.rstrip('/')\<close>.\<close>

definition rstrip_slash :: "string \<Rightarrow> string" where
  "rstrip_slash s = rev (dropWhile (\<lambda>c. c = CHR ''/'') (rev s))"

text \<open>\<open>os.path.split(p)\<close> (posixpath): head and tail around the last slash; trailing slashes
  are stripped from the head unless it consists of slashes only.\<close>

definition os_path_split :: "string \<Rightarrow> string \<times> string" where
  "os_path_split p =
     (let tail = os_path_basename p;
          head = take (length p - length tail) p
      in ((if rstrip_slash head = [] then head else rstrip_slash head), tail))"

text \<open>\<open>Path(s).as_posix()\<close> (pathlib, posix flavour): empty and \<open>.\<close> components and a trailing
  slash are dropped, exactly two leading slashes are kept, and the empty path is \<open>.\<close>.\<close>

definition as_posix :: "string \<Rightarrow> string" where
  "as_posix s =
     (let parts = filter (\<lambda>c. c \<noteq> [] \<and> c \<noteq> ''.'') (split_slash s);
          anchor = (if take 2 s = ''//'' \<and> take 3 s \<noteq> ''///'' then ''//''
                    else if take 1 s = ''/'' then ''/'' else [])
      in if anchor = [] \<and> parts = [] then ''.'' else anchor @ join_slash parts)"

text \<open>\<open>s.replace(old, new)\<close>: every non-overlapping occurrence, left to right; with an empty
  \<open>old\<close>, \<open>new\<close> is put before every character and at the end.\<close>

fun replace_from :: "string \<Rightarrow> string \<Rightarrow> string \<Rightarrow> string" where
  "replace_from old new [] = []"
| "replace_from old new (c # cs) =
     (if old \<noteq> [] \<and> prefix old (c # cs) then new @ replace_from old new (drop (length old - 1) cs)
      else c # replace_from old new cs)"

definition str_replace :: "string \<Rightarrow> string \<Rightarrow> string \<Rightarrow> string" where
  "str_replace s old new =
     (if old = [] then new @ concat (map (\<lambda>c. c # new) s) else replace_from old new s)"

text \<open>\<open>s.endswith(t)\<close> is \<^const>\<open>suffix\<close>. The pattern of \<open>identify_dirs\<close>, \<open>re.match(r"v\d{8}", s)\<close>:
  the name starts with \<open>v\<close> and eight digits.\<close>

definition is_digit :: "char \<Rightarrow> bool" where
  "is_digit c = (CHR ''0'' \<le> c \<and> c \<le> CHR ''9'')"

definition re_match_version :: "string \<Rightarrow> bool" where
  "re_match_version s =
     (case s of [] \<Rightarrow> False
      | c # cs \<Rightarrow> c = CHR ''v'' \<and> 8 \<le> length cs \<and> list_all is_digit (take 8 cs))"

text \<open>\<open>fnmatch\<close> of a name against \<open>v????????\<close>: a \<open>v\<close> and any eight characters.\<close>

definition fnmatch_version :: "string \<Rightarrow> bool" where
  "fnmatch_version s = (case s of [] \<Rightarrow> False | c # cs \<Rightarrow> c = CHR ''v'' \<and> length cs = 8)"

section \<open>The file system\<close>

text \<open>
  The file system primitives the program calls (\<open>os.listdir\<close>, \<open>os.path.isdir\<close>, \<open>os.remove\<close>,
  \<open>os.rmdir\<close>, \<open>os.symlink\<close>, \<open>os.readlink\<close>, ...) act on a tree of nodes. A regular file
  carries its size and its MD5 digest, a symbolic link its target, a directory its size and
  its entries in the order \<open>os.listdir\<close> reports them. An exception is a value of \<open>error\<close>.
\<close>

datatype error =
    FileNotFoundError | NotADirectoryError | IsADirectoryError | FileExistsError
  | OSError | IndexError | TypeError | RecursionError

datatype node =
    File nat string
  | Symlink string
  | Dir nat "(string \<times> node) list"

datatype level = DEBUG | INFO | WARNING | ERROR

text \<open>What a run leaves behind: the calls to the logger, the mutating system calls that
  succeeded, and the reads of a file's size and content.\<close>

datatype event =
    Log level string
  | Os_remove string
  | Os_rmdir string
  | Os_symlink string string
  | Os_getsize string
  | Os_read string

text \<open>
  Besides the tree, the working directory and the trace, the world holds two things the
  program takes from its environment. \<open>frames\<close> is the number of nested calls of
  \<open>nested_list\<close> in which the interpreter still has a frame left for a call made from
  there (Python's recursion limit less the frames below). \<open>glob_dirs\<close> stands for the
  expansion \<open>glob\<close> makes of a directory pattern that holds one of \<open>*\<close>, \<open>?\<close>, \<open>[\<close>: given
  the tree, the working directory and the pattern, the directories that match.
\<close>

record world =
  root :: node
  cwd :: "string list"
  trace :: "event list"
  frames :: nat
  glob_dirs :: "node \<Rightarrow> string list \<Rightarrow> string \<Rightarrow> string list"

text \<open>The node at a list of names below a node, no link followed.\<close>

fun lookup :: "node \<Rightarrow> string list \<Rightarrow> node option" where
  "lookup n [] = Some n"
| "lookup (Dir s es) (c # cs) = (case map_of es c of None \<Rightarrow> None | Some m \<Rightarrow> lookup m cs)"
| "lookup (File s d) (c # cs) = None"
| "lookup (Symlink t) (c # cs) = None"

text \<open>Changing the entries of the directory at a list of names.\<close>

fun modify :: "string list \<Rightarrow> ((string \<times> node) list \<Rightarrow> (string \<times> node) list) \<Rightarrow> node \<Rightarrow> node" where
  "modify [] f (Dir s es) = Dir s (f es)"
| "modify (c # cs) f (Dir s es) =
     Dir s (map (\<lambda>e. if fst e = c then (fst e, modify cs f (snd e)) else e) es)"
| "modify cs f (File s d) = File s d"
| "modify cs f (Symlink t) = Symlink t"

definition is_abs :: "string \<Rightarrow> bool" where
  "is_abs p = (take 1 p = ''/'')"

text \<open>
  Path resolution, component by component from the directory \<open>cur\<close>: \<open>.\<close> and empty
  components stay, \<open>..\<close> goes up, a symbolic link is replaced by its target, and at most
  \<open>n\<close> links are followed (the kernel's limit is 40) before the call fails with ELOOP.
\<close>

function walk_path :: "node \<Rightarrow> nat \<Rightarrow> string list \<Rightarrow> string list \<Rightarrow> error + string list" where
  "walk_path r n cur [] = Inr cur"
| "walk_path r n cur (c # cs) =
     (if c = [] \<or> c = ''.'' then
        (case lookup r cur of Some (Dir s es) \<Rightarrow> walk_path r n cur cs
         | _ \<Rightarrow> Inl NotADirectoryError)
      else if c = ''..'' then
        (case lookup r cur of Some (Dir s es) \<Rightarrow> walk_path r n (butlast cur) cs
         | _ \<Rightarrow> Inl NotADirectoryError)
      else
        (case lookup r cur of
           Some (Dir s es) \<Rightarrow>
             (case map_of es c of
                None \<Rightarrow> Inl FileNotFoundError
              | Some (Symlink t) \<Rightarrow>
                  (if n = 0 then Inl OSError
                   else if t = [] then Inl FileNotFoundError
                   else walk_path r (n - 1) (if is_abs t then [] else cur) (split_slash t @ cs))
              | Some m \<Rightarrow> walk_path r n (cur @ [c]) cs)
         | _ \<Rightarrow> Inl NotADirectoryError))"
  by pat_completeness auto
termination
  by (relation "measures [\<lambda>(r, n, cur, cs). n, \<lambda>(r, n, cur, cs). length cs]") auto

definition max_links :: nat where
  "max_links = 40"

text \<open>The canonical place of a path with every link followed (\<open>stat\<close>), and the node there.\<close>

definition resolve :: "world \<Rightarrow> string \<Rightarrow> error + string list" where
  "resolve w p =
     (if p = [] then Inl FileNotFoundError
      else walk_path (root w) max_links (if is_abs p then [] else cwd w) (split_slash p))"

definition stat :: "world \<Rightarrow> string \<Rightarrow> error + node" where
  "stat w p =
     (case resolve w p of Inl e \<Rightarrow> Inl e
      | Inr c \<Rightarrow> (case lookup (root w) c of None \<Rightarrow> Inl FileNotFoundError | Some m \<Rightarrow> Inr m))"

text \<open>The directory and the name a path designates when its last component is not followed
  (\<open>lstat\<close>, \<open>unlink\<close>, \<open>rmdir\<close>, \<open>symlink\<close>, \<open>readlink\<close>). Trailing slashes are stripped first;
  a path that ends in \<open>.\<close> or \<open>..\<close> or is the root has no such name.\<close>

definition locate :: "world \<Rightarrow> string \<Rightarrow> error + (string list \<times> string)" where
  "locate w p =
     (let q = rstrip_slash p; cs = split_slash q in
      if p = [] then Inl FileNotFoundError
      else if q = [] \<or> last cs = ''.'' \<or> last cs = ''..'' then Inl OSError
      else (case walk_path (root w) max_links (if is_abs p then [] else cwd w) (butlast cs) of
              Inl e \<Rightarrow> Inl e
            | Inr par \<Rightarrow>
                (case lookup (root w) par of
                   Some (Dir s es) \<Rightarrow> Inr (par, last cs)
                 | _ \<Rightarrow> Inl NotADirectoryError)))"

definition lstat :: "world \<Rightarrow> string \<Rightarrow> error + node" where
  "lstat w p =
     (case locate w p of
        Inl e \<Rightarrow> (if e = OSError then stat w p else Inl e)
      | Inr (par, name) \<Rightarrow>
          (case lookup (root w) (par @ [name]) of
             None \<Rightarrow> Inl FileNotFoundError
           | Some m \<Rightarrow> Inr m))"

text \<open>The reading primitives. \<open>os.path.isdir\<close>, \<open>isfile\<close> and \<open>exists\<close> follow links and
  answer \<open>False\<close> where \<open>stat\<close> fails; \<open>Path.is_symlink\<close> does the same on \<open>lstat\<close>. A \<open>Path\<close>
  object holds its argument normalised by \<^const>\<open>as_posix\<close>.\<close>

definition os_path_isdir :: "world \<Rightarrow> string \<Rightarrow> bool" where
  "os_path_isdir w p = (case stat w p of Inr (Dir s es) \<Rightarrow> True | _ \<Rightarrow> False)"

definition os_path_isfile :: "world \<Rightarrow> string \<Rightarrow> bool" where
  "os_path_isfile w p = (case stat w p of Inr (File s d) \<Rightarrow> True | _ \<Rightarrow> False)"

definition os_path_exists :: "world \<Rightarrow> string \<Rightarrow> bool" where
  "os_path_exists w p = (case stat w p of Inr m \<Rightarrow> True | Inl e \<Rightarrow> False)"

definition os_path_islink :: "world \<Rightarrow> string \<Rightarrow> bool" where
  "os_path_islink w p = (case lstat w p of Inr (Symlink t) \<Rightarrow> True | _ \<Rightarrow> False)"

definition os_listdir :: "world \<Rightarrow> string \<Rightarrow> error + string list" where
  "os_listdir w p =
     (case stat w p of
        Inl e \<Rightarrow> Inl e
      | Inr (Dir s es) \<Rightarrow> Inr (map fst es)
      | Inr m \<Rightarrow> Inl NotADirectoryError)"

definition path_is_symlink :: "world \<Rightarrow> string \<Rightarrow> bool" where
  "path_is_symlink w p = os_path_islink w (as_posix p)"

text \<open>\<open>Path(p).readlink().as_posix()\<close>, also what \<open>str(Path(p).readlink())\<close> prints.\<close>

definition path_readlink :: "world \<Rightarrow> string \<Rightarrow> error + string" where
  "path_readlink w p =
     (case lstat w (as_posix p) of
        Inl e \<Rightarrow> Inl e
      | Inr (Symlink t) \<Rightarrow> Inr (as_posix t)
      | Inr m \<Rightarrow> Inl OSError)"

subsection \<open>Effects\<close>

text \<open>A computation takes the world and returns a result or the exception raised, with the
  world as it is then: what was deleted before an exception stays deleted.\<close>

type_synonym 'a io = "world \<Rightarrow> (error + 'a) \<times> world"

definition ret :: "'a \<Rightarrow> 'a io" where
  "ret x w = (Inr x, w)"

definition bind_io :: "'a io \<Rightarrow> ('a \<Rightarrow> 'b io) \<Rightarrow> 'b io" where
  "bind_io m f w = (case m w of (Inl e, w') \<Rightarrow> (Inl e, w') | (Inr x, w') \<Rightarrow> f x w')"

definition throw :: "error \<Rightarrow> 'a io" where
  "throw e w = (Inl e, w)"

definition reading :: "(world \<Rightarrow> error + 'a) \<Rightarrow> 'a io" where
  "reading f w = (f w, w)"

definition emit :: "event \<Rightarrow> unit io" where
  "emit e w = (Inr (), w\<lparr>trace := trace w @ [e]\<rparr>)"

definition logger :: "level \<Rightarrow> string \<Rightarrow> unit io" where
  "logger l msg = emit (Log l msg)"

fun for_each :: "'a list \<Rightarrow> ('a \<Rightarrow> unit io) \<Rightarrow> unit io" where
  "for_each [] body = ret ()"
| "for_each (x # xs) body = bind_io (body x) (\<lambda>u. for_each xs body)"

text \<open>\<open>os.remove\<close> unlinks a file or a link and refuses a directory; \<open>os.rmdir\<close> removes an empty
  directory and refuses a link to one; \<open>os.symlink\<close> refuses an existing name.\<close>

definition os_remove :: "string \<Rightarrow> unit io" where
  "os_remove p w =
     (case locate w p of
        Inl e \<Rightarrow> (Inl (if e = OSError then IsADirectoryError else e), w)
      | Inr (par, name) \<Rightarrow>
          (case lookup (root w) (par @ [name]) of
             None \<Rightarrow> (Inl FileNotFoundError, w)
           | Some (Dir s es) \<Rightarrow> (Inl IsADirectoryError, w)
           | Some m \<Rightarrow>
               (if p \<noteq> [] \<and> last p = CHR ''/'' then (Inl NotADirectoryError, w)
                else (Inr (), w\<lparr>root := modify par (filter (\<lambda>e. fst e \<noteq> name)) (root w),
                               trace := trace w @ [Os_remove p]\<rparr>))))"

definition os_rmdir :: "string \<Rightarrow> unit io" where
  "os_rmdir p w =
     (case locate w p of
        Inl e \<Rightarrow> (Inl e, w)
      | Inr (par, name) \<Rightarrow>
          (case lookup (root w) (par @ [name]) of
             None \<Rightarrow> (Inl FileNotFoundError, w)
           | Some (Dir s es) \<Rightarrow>
               (if es \<noteq> [] then (Inl OSError, w)
                else (Inr (), w\<lparr>root := modify par (filter (\<lambda>e. fst e \<noteq> name)) (root w),
                               trace := trace w @ [Os_rmdir p]\<rparr>))
           | Some m \<Rightarrow> (Inl NotADirectoryError, w)))"

definition os_symlink :: "string \<Rightarrow> string \<Rightarrow> unit io" where
  "os_symlink target p w =
     (case locate w p of
        Inl e \<Rightarrow> (Inl (if e = OSError then FileExistsError else e), w)
      | Inr (par, name) \<Rightarrow>
          (case lookup (root w) (par @ [name]) of
             Some m \<Rightarrow> (Inl FileExistsError, w)
           | None \<Rightarrow>
               (if target = [] \<or> (p \<noteq> [] \<and> last p = CHR ''/'') then (Inl FileNotFoundError, w)
                else (Inr (), w\<lparr>root := modify par (\<lambda>es. es @ [(name, Symlink target)]) (root w),
                               trace := trace w @ [Os_symlink target p]\<rparr>))))"

section \<open>The program\<close>

subsection \<open>Content verifier\<close>

text \<open>\<open>size(f)\<close> is \<open>os.path.getsize(f)\<close>; \<open>md5(f)\<close> opens the file and hashes its blocks, which
  fails on a directory.\<close>

definition size_f :: "string \<Rightarrow> nat io" where
  "size_f f w =
     (case stat w f of
        Inl e \<Rightarrow> (Inl e, w)
      | Inr (File s d) \<Rightarrow> (Inr s, w\<lparr>trace := trace w @ [Os_getsize f]\<rparr>)
      | Inr (Dir s es) \<Rightarrow> (Inr s, w\<lparr>trace := trace w @ [Os_getsize f]\<rparr>)
      | Inr (Symlink t) \<Rightarrow> (Inl FileNotFoundError, w))"

definition md5 :: "string \<Rightarrow> string io" where
  "md5 f w =
     (case stat w f of
        Inl e \<Rightarrow> (Inl e, w)
      | Inr (File s d) \<Rightarrow> (Inr d, w\<lparr>trace := trace w @ [Os_read f]\<rparr>)
      | Inr (Dir s es) \<Rightarrow> (Inl IsADirectoryError, w)
      | Inr (Symlink t) \<Rightarrow> (Inl FileNotFoundError, w))"

text \<open>
  \<open>nested_list(d, remove_base)\<close>. The parameter \<open>remove_base\<close> is \<open>False\<close> (here \<open>None\<close>) or a
  string, and the empty string counts as false. The recursive call passes no \<open>remove_base\<close>.
  \<open>os.path.isdir\<close> follows links, so a cycle of links recurses until the interpreter has no
  frame left: \<open>depth\<close> counts the nested calls that can still call \<open>os.path.join\<close> and
  \<open>os.path.isdir\<close>. With none left, a call on an empty directory still returns, and the
  first \<open>os.path.join\<close> of any other raises RecursionError.
\<close>

definition truthy :: "string option \<Rightarrow> bool" where
  "truthy b = (b \<noteq> None \<and> b \<noteq> Some [])"

function nested_list_depth :: "nat \<Rightarrow> world \<Rightarrow> string \<Rightarrow> string option \<Rightarrow> error + string list" where
  "nested_list_depth depth w d remove_base =
     (case os_listdir w d of
        Inl e \<Rightarrow> Inl e
      | Inr names \<Rightarrow>
          if depth = 0 then (if names = [] then Inr [] else Inl RecursionError)
          else
            (case fold (\<lambda>i acc.
                    (case acc of
                       Inl e \<Rightarrow> Inl e
                     | Inr r \<Rightarrow>
                         (let pth = os_path_join d i in
                          if os_path_isdir w pth then
                            (case nested_list_depth (depth - 1) w pth None of
                               Inl e \<Rightarrow> Inl e
                             | Inr sub \<Rightarrow> Inr (r @ sub))
                          else Inr (r @ [if truthy remove_base
                                         then str_replace pth (the remove_base) []
                                         else pth]))))
                  names (Inr []) of
               Inl e \<Rightarrow> Inl e
             | Inr r \<Rightarrow> Inr (sort r)))"
  by pat_completeness auto
termination
  by (relation "measure (\<lambda>(depth, w, d, b). depth)") auto

definition nested_list :: "world \<Rightarrow> string \<Rightarrow> string option \<Rightarrow> error + string list" where
  "nested_list w d remove_base = nested_list_depth (frames w) w d remove_base"

text \<open>\<open>str(n)\<close> for a size.\<close>

fun str_nat :: "nat \<Rightarrow> string" where
  "str_nat n =
     (if n < 10 then [char_of (48 + n)] else str_nat (n div 10) @ [char_of (48 + n mod 10)])"

text \<open>
  \<open>dirs_match(d1, d2, basedir1, basedir2)\<close>. The result is \<open>True\<close>, \<open>False\<close> or, after the bare
  \<open>return\<close> on different listings, \<open>None\<close>. The loop \<open>for i in d1\<close> runs over the characters of
  the string \<open>d1\<close>, as the source has it.
\<close>

definition dirs_match_body :: "string \<Rightarrow> string \<Rightarrow> char \<Rightarrow> nat \<Rightarrow> nat io" where
  "dirs_match_body d1 d2 i errs =
     (let i1 = os_path_join d1 [i]; i2 = os_path_join d2 [i] in
      (\<lambda>w. if os_path_isfile w i1 then
              bind_io (size_f i1) (\<lambda>s1.
              bind_io (size_f i2) (\<lambda>s2.
                if s1 \<noteq> s2 then
                  bind_io (logger ERROR (''Files differ in size: '' @ i1 @ '' = '' @ str_nat s1
                                          @ '' vs '' @ i2 @ '' = '' @ str_nat s2))
                    (\<lambda>u. ret (errs + 1))
                else
                  bind_io (md5 i1) (\<lambda>m1.
                  bind_io (md5 i2) (\<lambda>m2.
                    if m1 \<noteq> m2 then
                      bind_io (logger ERROR (''Files differ in MD5: '' @ i1 @ '' vs '' @ i2))
                        (\<lambda>u. ret (errs + 1))
                    else ret errs)))) w
            else ret errs w))"

fun dirs_match_loop :: "string \<Rightarrow> string \<Rightarrow> string \<Rightarrow> nat \<Rightarrow> nat io" where
  "dirs_match_loop d1 d2 [] errs = ret errs"
| "dirs_match_loop d1 d2 (i # rest) errs =
     bind_io (dirs_match_body d1 d2 i errs) (dirs_match_loop d1 d2 rest)"

definition dirs_match :: "string \<Rightarrow> string \<Rightarrow> string \<Rightarrow> string \<Rightarrow> bool option io" where
  "dirs_match d1 d2 basedir1 basedir2 =
     bind_io (reading (\<lambda>w. nested_list w d1 (Some basedir1))) (\<lambda>l1.
     bind_io (reading (\<lambda>w. nested_list w d2 (Some basedir2))) (\<lambda>l2.
       if l1 \<noteq> l2 then
         bind_io (logger ERROR (''Dirs have different listed contents: '' @ d1 @ '' vs '' @ d2))
           (\<lambda>u. ret None)
       else
         bind_io (dirs_match_loop d1 d2 d1 0) (\<lambda>errs.
           ret (Some (if errs = 0 then True else False)))))"

subsection \<open>Mutation actions\<close>

definition delete_dir :: "string \<Rightarrow> unit io" where
  "delete_dir dr =
     bind_io (logger WARNING (''Deleting files in: '' @ dr)) (\<lambda>u.
     bind_io (reading (\<lambda>w. os_listdir w dr)) (\<lambda>names.
     bind_io (for_each names (\<lambda>fname. os_remove (dr @ ''/'' @ fname))) (\<lambda>u.
     bind_io (logger WARNING (''Deleting directory: '' @ dr)) (\<lambda>u.
       os_rmdir dr))))"

definition symlink :: "string \<Rightarrow> string \<Rightarrow> unit io" where
  "symlink target link =
     bind_io (logger WARNING (''Symlinking '' @ link @ '' to: '' @ target)) (\<lambda>u.
       os_symlink target link)"

subsection \<open>Dataset locator\<close>

text \<open>
  \<open>os.walk(d)\<close>, top-down: for each directory its path, the names of its entries that are
  directories (a link to a directory is one) and the other names; it descends into the real
  directories only, and yields nothing where it cannot list.
\<close>

fun walk_tree :: "world \<Rightarrow> string \<Rightarrow> node \<Rightarrow> (string \<times> string list \<times> string list) list" where
  "walk_tree w topdir (Dir s es) =
     (topdir,
      map fst (filter (\<lambda>e. os_path_isdir w (os_path_join topdir (fst e))) es),
      map fst (filter (\<lambda>e. \<not> os_path_isdir w (os_path_join topdir (fst e))) es))
     # concat (map (\<lambda>e. case snd e of
                           Dir s' es' \<Rightarrow> walk_tree w (os_path_join topdir (fst e)) (snd e)
                         | _ \<Rightarrow> []) es)"
| "walk_tree w topdir (File s d) = []"
| "walk_tree w topdir (Symlink t) = []"

definition os_walk :: "world \<Rightarrow> string \<Rightarrow> (string \<times> string list \<times> string list) list" where
  "os_walk w d = (case stat w d of Inr m \<Rightarrow> walk_tree w d m | Inl e \<Rightarrow> [])"

definition identify_dirs :: "world \<Rightarrow> string \<Rightarrow> string list" where
  "identify_dirs w d =
     map fst (filter (\<lambda>(dr, subdirs, files). list_ex re_match_version subdirs) (os_walk w d))"

subsection \<open>Version catalog\<close>

text \<open>
  \<open>glob.glob(f"{dr}/v????????")\<close>. The pattern is split into its directory part and the name
  pattern \<open>v????????\<close>. A directory part without \<open>*\<close>, \<open>?\<close> and \<open>[\<close> is taken as it is;
  one with such a character is itself expanded by \<open>glob\<close> to the directories that match
  (\<^const>\<open>glob_dirs\<close>). Of each of these directories the entries whose names match are
  returned, joined to the directory; a directory that cannot be listed gives nothing.
\<close>

definition has_magic :: "string \<Rightarrow> bool" where
  "has_magic s = list_ex (\<lambda>c. c = CHR ''*'' \<or> c = CHR ''?'' \<or> c = CHR ''['') s"

definition glob_versions :: "world \<Rightarrow> string \<Rightarrow> string list" where
  "glob_versions w dr =
     (let dirname = fst (os_path_split (dr @ ''/v????????''));
          dirs = (if has_magic dirname then glob_dirs w (root w) (cwd w) dirname else [dirname])
      in concat (map (\<lambda>d. case os_listdir w d of
                             Inl e \<Rightarrow> []
                           | Inr names \<Rightarrow> map (os_path_join d) (filter fnmatch_version names))
                     dirs))"

definition find_versions :: "world \<Rightarrow> string \<Rightarrow> string list" where
  "find_versions w dr = sort (map os_path_basename (glob_versions w dr))"

record version_dir =
  vd_dr :: string
  vd_base :: string
  vd_version :: string

definition VersionDir :: "string \<Rightarrow> version_dir" where
  "VersionDir d = \<lparr>vd_dr = d, vd_base = fst (os_path_split d), vd_version = snd (os_path_split d)\<rparr>"

text \<open>The attribute \<open>latest\<close> of an \<open>ArchiveDir\<close> is a string or \<open>False\<close>.\<close>

datatype str_or_false = PyFalse | PyStr string

definition falsy :: "str_or_false \<Rightarrow> bool" where
  "falsy v = (case v of PyFalse \<Rightarrow> True | PyStr s \<Rightarrow> s = [])"

definition str_of :: "str_or_false \<Rightarrow> string" where
  "str_of v = (case v of PyFalse \<Rightarrow> ''False'' | PyStr s \<Rightarrow> s)"

record archive_dir =
  dr :: string
  exists :: bool
  versions :: "string list"
  latest :: str_or_false
  valid :: bool

definition check_valid :: "string \<Rightarrow> string list \<Rightarrow> str_or_false \<Rightarrow> bool io" where
  "check_valid d vs lt =
     bind_io
       (\<lambda>w. if \<not> os_path_isdir w d then
               bind_io (logger ERROR (''Archive container directory is missing: '' @ d))
                 (\<lambda>u. ret False) w
             else if vs = [] then
               bind_io (logger ERROR (''No version directories found in container directory: '' @ d))
                 (\<lambda>u. ret False) w
             else ret True w)
       (\<lambda>v.
          if falsy lt then
            bind_io (logger ERROR (''No latest link in container directory: '' @ d))
              (\<lambda>u. ret False)
          else
            bind_io (reading (\<lambda>w. path_readlink w (d @ ''/latest''))) (\<lambda>t.
              if vs = [] then throw IndexError
              else if t \<noteq> last vs then
                bind_io (logger ERROR (''Latest link is not pointing to most recent version in: '' @ d))
                  (\<lambda>u. ret False)
              else ret v))"

definition ArchiveDir :: "string \<Rightarrow> archive_dir io" where
  "ArchiveDir d =
     (\<lambda>w. let ex = os_path_isdir w d;
               vs = find_versions w d;
               lt = (if path_is_symlink w (d @ ''/latest'')
                     then (case path_readlink w (d @ ''/latest'') of
                             Inr t \<Rightarrow> PyStr t | Inl e \<Rightarrow> PyFalse)
                     else PyFalse)
           in bind_io (check_valid d vs lt) (\<lambda>v.
                ret \<lparr>dr = d, exists = ex, versions = vs, latest = lt, valid = v\<rparr>) w)"

subsection \<open>Reconciliation engine\<close>

text \<open>\<open>gws_version < arc_dir.latest\<close> and \<open>gws_version == arc_dir.latest\<close>: a string compares
  with a string; against \<open>False\<close> the order raises TypeError and the equality is false.\<close>

definition str_less :: "string \<Rightarrow> str_or_false \<Rightarrow> error + bool" where
  "str_less s v = (case v of PyFalse \<Rightarrow> Inl TypeError | PyStr t \<Rightarrow> Inr (s < t))"

definition str_eq :: "string \<Rightarrow> str_or_false \<Rightarrow> bool" where
  "str_eq s v = (case v of PyFalse \<Rightarrow> False | PyStr t \<Rightarrow> s = t)"

text \<open>The report on the working dataset's own \<open>latest\<close> link, which ends two of the branches.\<close>

definition report_gws_latest :: "string \<Rightarrow> string \<Rightarrow> string \<Rightarrow> unit io" where
  "report_gws_latest lead gws_dr gv_path =
     (\<lambda>w. if os_path_exists w (as_posix (gws_dr @ ''/latest'')) then
             bind_io (reading (\<lambda>w. path_readlink w (gws_dr @ ''/latest''))) (\<lambda>t.
               logger WARNING (lead @ t)) w
           else logger WARNING (''    No latest link exists for '' @ gv_path) w)"

text \<open>The body of the loop over the working versions of one dataset.\<close>

definition process_version :: "string \<Rightarrow> string \<Rightarrow> string \<Rightarrow> archive_dir \<Rightarrow> string \<Rightarrow> unit io" where
  "process_version bd1 bd2 gws_dr arc_dir gws_version =
     (let gv_path = os_path_join gws_dr gws_version;
          av_path = os_path_join (dr arc_dir) gws_version in
      bind_io (logger DEBUG (''[INFO] Working on: '' @ gv_path)) (\<lambda>u.
      bind_io (logger DEBUG (''              and: '' @ av_path)) (\<lambda>u.
      bind_io (reading (\<lambda>w. str_less gws_version (latest arc_dir))) (\<lambda>older.
        if older then
          bind_io (delete_dir gv_path) (\<lambda>u.
          bind_io (symlink av_path gv_path) (\<lambda>u.
            logger WARNING (''[ACTION] Deleted old version in GWS: '' @ gv_path)))
        else if str_eq gws_version (latest arc_dir) then
          bind_io
            (\<lambda>w. if path_is_symlink w gv_path
                     \<and> (case path_readlink w gv_path of
                           Inr t \<Rightarrow> suffix av_path t | Inl e \<Rightarrow> False)
                  then logger INFO (gv_path @ '' correctly points to: '' @ av_path) w
                  else bind_io (dirs_match gv_path av_path bd1 bd2) (\<lambda>m.
                         if m = Some True then
                           bind_io (delete_dir gv_path) (\<lambda>u.
                           bind_io (symlink av_path gv_path) (\<lambda>u.
                             logger WARNING (''[ACTION] Deleted '' @ gv_path
                                             @ '' and symlinked to: '' @ av_path)))
                         else ret ()) w)
            (\<lambda>u.
          bind_io (reading (\<lambda>w. path_readlink w (dr arc_dir @ ''/latest''))) (\<lambda>t.
          bind_io (logger WARNING (''    Archive latest link points to '' @ t)) (\<lambda>u.
            report_gws_latest ''    GWS latest link points to '' gws_dr gv_path)))
        else
          bind_io (logger WARNING (''GWS version is newer than archive dir: '' @ gv_path
                                   @ '' newer than '' @ dr arc_dir @ ''/'' @ str_of (latest arc_dir)))
            (\<lambda>u. report_gws_latest ''    And latest link points to '' gws_dr gv_path)))))"

text \<open>The body of the loop over the datasets.\<close>

definition process_dataset :: "string \<Rightarrow> string \<Rightarrow> string \<Rightarrow> unit io" where
  "process_dataset bd1 bd2 d1 =
     (\<lambda>w. let gws_dir = VersionDir d1;
               gws_versions = find_versions w (vd_dr gws_dir) in
           bind_io (ArchiveDir (str_replace d1 bd1 bd2)) (\<lambda>arc_dir.
             if \<not> valid arc_dir then ret ()
             else for_each (rev gws_versions)
                    (process_version bd1 bd2 (vd_dr gws_dir) arc_dir)) w)"

definition main :: "string \<Rightarrow> string \<Rightarrow> unit io" where
  "main bd1 bd2 =
     (\<lambda>w. if \<not> os_path_isdir w bd1 then
             logger ERROR (''Top-level directory does not exist: '' @ bd1) w
           else if \<not> os_path_isdir w bd2 then
             logger ERROR (''Top-level directory does not exist: '' @ bd2) w
           else
             (let dirs_to_check = identify_dirs w bd1 in
              bind_io (if dirs_to_check = []
                       then logger ERROR (''No content found in directory: '' @ bd1)
                       else ret ())
                (\<lambda>u. for_each dirs_to_check (process_dataset bd1 bd2)) w))"

text \<open>The mutating system calls of a trace.\<close>

fun is_mutation :: "event \<Rightarrow> bool" where
  "is_mutation (Os_remove p) = True"
| "is_mutation (Os_rmdir p) = True"
| "is_mutation (Os_symlink t p) = True"
| "is_mutation (Log l m) = False"
| "is_mutation (Os_getsize p) = False"
| "is_mutation (Os_read p) = False"

definition mutations :: "event list \<Rightarrow> event list" where
  "mutations es = filter is_mutation es"

section \<open>Flat directories and paths that stay outside them\<close>

text \<open>A name as a directory entry can have it.\<close>

definition valid_name :: "string \<Rightarrow> bool" where
  "valid_name n = (n \<noteq> [] \<and> n \<noteq> ''.'' \<and> n \<noteq> ''..'' \<and> CHR ''/'' \<notin> set n)"

fun is_dir_node :: "node \<Rightarrow> bool" where
  "is_dir_node (Dir s es) = True"
| "is_dir_node (File s d) = False"
| "is_dir_node (Symlink t) = False"

text \<open>The entries of a flat directory: distinct names, none of them a directory.\<close>

definition flat_entries :: "(string \<times> node) list \<Rightarrow> bool" where
  "flat_entries es =
     (distinct (map fst es) \<and> list_all (\<lambda>e. valid_name (fst e) \<and> \<not> is_dir_node (snd e)) es)"

text \<open>The directory a relative path starts from.\<close>

definition start_dir :: "world \<Rightarrow> string \<Rightarrow> string list" where
  "start_dir w p = (if is_abs p then [] else cwd w)"

text \<open>
  \<open>walk_outside r n cur cs G\<close>: the resolution of the components \<open>cs\<close> from \<open>cur\<close> never stands
  in the directory \<open>G\<close> or below it and never reads the entry \<open>G\<close> itself. It follows
  \<^const>\<open>walk_path\<close> step by step.
\<close>

function walk_outside :: "node \<Rightarrow> nat \<Rightarrow> string list \<Rightarrow> string list \<Rightarrow> string list \<Rightarrow> bool" where
  "walk_outside r n cur [] G = True"
| "walk_outside r n cur (c # cs) G =
     (\<not> prefix G cur \<and>
      (if c = [] \<or> c = ''.'' then
         (case lookup r cur of Some (Dir s es) \<Rightarrow> walk_outside r n cur cs G | _ \<Rightarrow> True)
       else if c = ''..'' then
         (case lookup r cur of Some (Dir s es) \<Rightarrow> walk_outside r n (butlast cur) cs G | _ \<Rightarrow> True)
       else
         (case lookup r cur of
            Some (Dir s es) \<Rightarrow>
              cur @ [c] \<noteq> G \<and>
              (case map_of es c of
                 None \<Rightarrow> True
               | Some (Symlink t) \<Rightarrow>
                   (if n = 0 then True
                    else if t = [] then True
                    else walk_outside r (n - 1) (if is_abs t then [] else cur) (split_slash t @ cs) G)
               | Some m \<Rightarrow> walk_outside r n (cur @ [c]) cs G)
          | _ \<Rightarrow> True)))"
  by pat_completeness auto
termination
  by (relation "measures [\<lambda>(r, n, cur, cs, G). n, \<lambda>(r, n, cur, cs, G). length cs]") auto

text \<open>What path resolution sees of a node: whether it is there, its kind, and the target of
  a link.\<close>

datatype shape = Absent | A_file | A_link string | A_dir

fun shape_of :: "node option \<Rightarrow> shape" where
  "shape_of None = Absent"
| "shape_of (Some (File s d)) = A_file"
| "shape_of (Some (Symlink t)) = A_link t"
| "shape_of (Some (Dir s es)) = A_dir"


text \<open>\<open>names_entry w p P v\<close>: the path \<open>p\<close> names the entry \<open>v\<close> of the directory \<open>P\<close>, and
  its resolution up to \<open>P\<close> stays outside that entry.\<close>

definition names_entry :: "world \<Rightarrow> string \<Rightarrow> string list \<Rightarrow> string \<Rightarrow> bool" where
  "names_entry w p P v =
     (p \<noteq> [] \<and> last p \<noteq> CHR ''/'' \<and> valid_name v \<and> last (split_slash p) = v
      \<and> walk_path (root w) max_links (start_dir w p) (butlast (split_slash p)) = Inr P
      \<and> walk_outside (root w) max_links (start_dir w p) (butlast (split_slash p)) (P @ [v])
      \<and> shape_of (lookup (root w) P) = A_dir)"

section \<open>Example file systems\<close>

text \<open>A working tree \<open>/gws\<close> and an archive tree \<open>/arc\<close> with one dataset \<open>ds\<close>: the archive holds
  two versions and a \<open>latest\<close> link to the newer one, the working tree an older and a newer
  version.\<close>

definition tree_valid :: node where
  "tree_valid =
     Dir 4096
      [(''gws'', Dir 4096
         [(''ds'', Dir 4096
            [(''v20200101'', Dir 4096 [(''a.nc'', File 5 ''d41d''), (''b.nc'', File 6 ''9e10'')]),
             (''v20200103'', Dir 4096 [(''a.nc'', File 9 ''77aa'')])])]),
       (''arc'', Dir 4096
         [(''ds'', Dir 4096
            [(''v20200101'', Dir 4096 [(''a.nc'', File 5 ''d41d''), (''b.nc'', File 6 ''9e10'')]),
             (''v20200102'', Dir 4096 [(''a.nc'', File 7 ''c0ff'')]),
             (''latest'', Symlink ''v20200102'')])])]"

text \<open>The world of the examples: the working directory is the root, nothing is logged yet.\<close>

definition world_of :: "node \<Rightarrow> event list \<Rightarrow> world" where
  "world_of r t = \<lparr>root = r, cwd = [], trace = t, frames = 990, glob_dirs = (\<lambda>r c p. [])\<rparr>"

definition world_valid :: world where
  "world_valid = world_of tree_valid []"

definition arc_valid :: archive_dir where
  "arc_valid = \<lparr>dr = ''/arc/ds'', exists = True, versions = [''v20200101'', ''v20200102''],
                 latest = PyStr ''v20200102'', valid = True\<rparr>"

text \<open>The same archive with a \<open>latest\<close> link whose target is the absolute path of the newest
  version.\<close>

definition tree_abs_latest :: node where
  "tree_abs_latest =
     Dir 4096
      [(''arc'', Dir 4096
         [(''ds'', Dir 4096
            [(''v20200101'', Dir 4096 [(''a.nc'', File 5 ''d41d'')]),
             (''v20200102'', Dir 4096 [(''a.nc'', File 7 ''c0ff'')]),
             (''latest'', Symlink ''/arc/ds/v20200102'')])])]"

definition world_abs_latest :: world where
  "world_abs_latest = world_of tree_abs_latest []"

definition arc_abs_latest :: archive_dir where
  "arc_abs_latest = \<lparr>dr = ''/arc/ds'', exists = True, versions = [''v20200101'', ''v20200102''],
                      latest = PyStr ''/arc/ds/v20200102'', valid = False\<rparr>"

text \<open>A dataset root whose children are a version, two directories that are not versions
  but have nine characters and start with \<open>v\<close>, a name that is too short, and a file.\<close>

definition tree_loose :: node where
  "tree_loose =
     Dir 4096
      [(''arc'', Dir 4096
         [(''ds'', Dir 4096
            [(''vabcdefgh'', Dir 4096 []),
             (''v20200101'', Dir 4096 [(''a.nc'', File 5 ''d41d'')]),
             (''v2019.bak'', Dir 4096 []),
             (''v2020010'', Dir 4096 []),
             (''readme'', File 12 ''0b1c'')])])]"

definition world_loose :: world where
  "world_loose = world_of tree_loose []"

text \<open>A working version equal to the archive's latest whose only file differs from the
  archive copy in size and digest, and the tree with that version replaced by a link.\<close>

definition tree_differs :: node where
  "tree_differs =
     Dir 4096
      [(''gws'', Dir 4096
         [(''ds'', Dir 4096
            [(''v20200101'', Dir 4096 [(''data.nc'', File 5 ''aaaa'')])])]),
       (''arc'', Dir 4096
         [(''ds'', Dir 4096
            [(''v20200101'', Dir 4096 [(''data.nc'', File 7 ''bbbb'')]),
             (''latest'', Symlink ''v20200101'')])])]"

definition world_differs :: world where
  "world_differs = world_of tree_differs []"

definition tree_differs_after :: node where
  "tree_differs_after =
     Dir 4096
      [(''gws'', Dir 4096
         [(''ds'', Dir 4096
            [(''v20200101'', Symlink ''/arc/ds/v20200101'')])]),
       (''arc'', Dir 4096
         [(''ds'', Dir 4096
            [(''v20200101'', Dir 4096 [(''data.nc'', File 7 ''bbbb'')]),
             (''latest'', Symlink ''v20200101'')])])]"

text \<open>A working version older than the archive's latest: the tree before a run, after one
  run and after a second run.\<close>

definition tree_stale :: node where
  "tree_stale =
     Dir 4096
      [(''gws'', Dir 4096
         [(''ds'', Dir 4096
            [(''v20200101'', Dir 4096 [(''a.nc'', File 5 ''d41d'')])])]),
       (''arc'', Dir 4096
         [(''ds'', Dir 4096
            [(''v20200101'', Dir 4096 [(''a.nc'', File 5 ''d41d'')]),
             (''v20200102'', Dir 4096 [(''a.nc'', File 7 ''c0ff'')]),
             (''latest'', Symlink ''v20200102'')])])]"

definition world_stale :: world where
  "world_stale = world_of tree_stale []"

definition tree_stale_once :: node where
  "tree_stale_once =
     Dir 4096
      [(''gws'', Dir 4096
         [(''ds'', Dir 4096
            [(''v20200101'', Symlink ''/arc/ds/v20200101'')])]),
       (''arc'', Dir 4096
         [(''ds'', Dir 4096
            [(''v20200101'', Dir 4096 [(''a.nc'', File 5 ''d41d'')]),
             (''v20200102'', Dir 4096 [(''a.nc'', File 7 ''c0ff'')]),
             (''latest'', Symlink ''v20200102'')])])]"

definition tree_stale_twice :: node where
  "tree_stale_twice =
     Dir 4096
      [(''gws'', Dir 4096
         [(''ds'', Dir 4096
            [(''v20200101'', Symlink ''/arc/ds/v20200101'')])]),
       (''arc'', Dir 4096
         [(''ds'', Dir 4096
            [(''v20200101'', Dir 4096 []),
             (''v20200102'', Dir 4096 [(''a.nc'', File 7 ''c0ff'')]),
             (''latest'', Symlink ''v20200102'')])])]"

text \<open>Two version directories with the same listing whose file \<open>g\<close> differs in size.\<close>

definition tree_asym :: node where
  "tree_asym =
     Dir 4096
      [(''gws'', Dir 4096
         [(''ds'', Dir 4096
            [(''v20200101'', Dir 4096 [(''g'', File 3 ''aaaa'')])])]),
       (''arc'', Dir 4096
         [(''ds'', Dir 4096
            [(''v20200101'', Dir 4096 [(''g'', File 4 ''bbbb'')])])])]"

definition world_asym :: world where
  "world_asym = world_of tree_asym []"

definition arc_stale :: archive_dir where
  "arc_stale = \<lparr>dr = ''/arc/ds'', exists = True, versions = [''v20200101'', ''v20200102''],
                 latest = PyStr ''v20200102'', valid = True\<rparr>"

text \<open>A stale working version that holds a file and a subdirectory.\<close>

definition tree_nested :: node where
  "tree_nested =
     Dir 4096
      [(''gws'', Dir 4096
         [(''ds'', Dir 4096
            [(''v20200101'', Dir 4096
               [(''a.nc'', File 5 ''d41d''),
                (''sub'', Dir 4096 [(''b.nc'', File 6 ''9e10'')])])])]),
       (''arc'', Dir 4096
         [(''ds'', Dir 4096
            [(''v20200101'', Dir 4096
               [(''a.nc'', File 5 ''d41d''),
                (''sub'', Dir 4096 [(''b.nc'', File 6 ''9e10'')])]),
             (''v20200102'', Dir 4096 [(''a.nc'', File 7 ''c0ff'')]),
             (''latest'', Symlink ''v20200102'')])])]"

definition world_nested :: world where
  "world_nested = world_of tree_nested []"

text \<open>Two stale working versions: the older holds a file only, the newer a subdirectory.\<close>

definition tree_blocked :: node where
  "tree_blocked =
     Dir 4096
      [(''gws'', Dir 4096
         [(''ds'', Dir 4096
            [(''v20200101'', Dir 4096 [(''a.nc'', File 5 ''d41d'')]),
             (''v20200102'', Dir 4096
               [(''sub'', Dir 4096 [(''b.nc'', File 6 ''9e10'')])])])]),
       (''arc'', Dir 4096
         [(''ds'', Dir 4096
            [(''v20200101'', Dir 4096 [(''a.nc'', File 5 ''d41d'')]),
             (''v20200102'', Dir 4096
               [(''sub'', Dir 4096 [(''b.nc'', File 6 ''9e10'')])]),
             (''v20200103'', Dir 4096 [(''a.nc'', File 7 ''c0ff'')]),
             (''latest'', Symlink ''v20200103'')])])]"

definition world_blocked :: world where
  "world_blocked = world_of tree_blocked []"

definition arc_blocked :: archive_dir where
  "arc_blocked = \<lparr>dr = ''/arc/ds'', exists = True,
                   versions = [''v20200101'', ''v20200102'', ''v20200103''],
                   latest = PyStr ''v20200103'', valid = True\<rparr>"

text \<open>The tree \<^const>\<open>tree_stale\<close> once the stale working version has been removed.\<close>

definition tree_stale_removed :: node where
  "tree_stale_removed =
     Dir 4096
      [(''gws'', Dir 4096 [(''ds'', Dir 4096 [])]),
       (''arc'', Dir 4096
         [(''ds'', Dir 4096
            [(''v20200101'', Dir 4096 [(''a.nc'', File 5 ''d41d'')]),
             (''v20200102'', Dir 4096 [(''a.nc'', File 7 ''c0ff'')]),
             (''latest'', Symlink ''v20200102'')])])]"

section \<open>Properties\<close>

declare nested_list_depth.simps [simp del]

declare str_nat.simps [simp del]

subsection \<open>Paths and strings\<close>

lemma split_slash_nonempty: "split_slash p \<noteq> []"
  by (induction p) (auto split: list.splits)

lemma split_slash_no_slash: "x \<in> set (split_slash p) \<Longrightarrow> CHR ''/'' \<notin> set x"
  by (induction p arbitrary: x) (auto split: list.splits if_splits)

lemma basename_no_slash: "CHR ''/'' \<notin> set (os_path_basename p)"
  unfolding os_path_basename_def
  by (meson last_in_set split_slash_no_slash split_slash_nonempty)

lemma split_slash_single: "CHR ''/'' \<notin> set t \<Longrightarrow> split_slash t = [t]"
  by (induction t) auto

lemma as_posix_single:
  assumes "CHR ''/'' \<notin> set t" "t \<noteq> []" "t \<noteq> ''.''"
  shows "as_posix t = t" "os_path_basename t = t"
  using assms by (cases t; auto simp: as_posix_def os_path_basename_def split_slash_single)+



lemma sorted_last_Max:
  fixes ys :: "string list"
  shows "sorted ys \<Longrightarrow> ys \<noteq> [] \<Longrightarrow> last ys = Max (set ys)"
proof (induction ys)
  case Nil
  then show ?case by simp
next
  case (Cons y ys)
  show ?case
  proof (cases "ys = []")
    case True
    then show ?thesis by simp
  next
    case False
    with Cons have "last ys = Max (set ys)" by simp
    moreover have "y \<le> Max (set ys)" using Cons.prems False
      by (metis last_in_set calculation sorted_simps(2))
    ultimately show ?thesis using False by (simp add: max_def)
  qed
qed

subsection \<open>Reading does not depend on the trace\<close>

lemma stat_trace [simp]: "stat (w\<lparr>trace := t\<rparr>) p = stat w p"
  by (simp add: stat_def resolve_def cong: sum.case_cong)

lemma locate_trace [simp]: "locate (w\<lparr>trace := t\<rparr>) p = locate w p"
  by (simp add: locate_def Let_def split: sum.splits option.splits node.splits)

lemma lstat_trace [simp]: "lstat (w\<lparr>trace := t\<rparr>) p = lstat w p"
  by (simp add: lstat_def split: sum.splits prod.splits option.splits)

lemma path_readlink_trace [simp]: "path_readlink (w\<lparr>trace := t\<rparr>) p = path_readlink w p"
  by (simp add: path_readlink_def)

lemma os_path_exists_trace [simp]: "os_path_exists (w\<lparr>trace := t\<rparr>) p = os_path_exists w p"
  by (simp add: os_path_exists_def)

lemma os_path_isdir_trace [simp]: "os_path_isdir (w\<lparr>trace := t\<rparr>) p = os_path_isdir w p"
  by (simp add: os_path_isdir_def)



lemma find_versions_no_slash: "v \<in> set (find_versions w d) \<Longrightarrow> CHR ''/'' \<notin> set v"
  by (auto simp: find_versions_def basename_no_slash)

lemma find_versions_last_Max:
  "find_versions w d \<noteq> [] \<Longrightarrow> last (find_versions w d) = Max (set (find_versions w d))"
  unfolding find_versions_def
  using sorted_last_Max [of "sort (map os_path_basename (glob_versions w d))"] by simp

subsection \<open>The archive state\<close>

text \<open>
  C10. An \<open>ArchiveDir\<close> constructed with \<open>valid == True\<close> has a non-empty list of versions, and
  its \<open>latest\<close> is the string that is the last, and greatest, element of that list. So the
  right-hand side of the engine's comparisons \<open>gws_version < arc_dir.latest\<close> and
  \<open>gws_version == arc_dir.latest\<close> is never \<open>False\<close> (the order does not raise) and holds no
  slash: it is a bare base name, not a path of several components.
\<close>

theorem valid_archive_latest_is_last_version:
  assumes "ArchiveDir d w = (Inr a, w')" and "valid a"
  shows "versions a = find_versions w d \<and> versions a \<noteq> []
         \<and> latest a = PyStr (last (versions a))
         \<and> last (versions a) = Max (set (versions a))
         \<and> CHR ''/'' \<notin> set (last (versions a))
         \<and> str_less v (latest a) = Inr (v < last (versions a))
         \<and> str_eq v (latest a) = (v = last (versions a))"
proof -
  have vs: "versions a = find_versions w d"
    using assms(1)
    by (auto simp: ArchiveDir_def Let_def bind_io_def ret_def split: prod.splits sum.splits)
  have ne: "versions a \<noteq> []" and lt: "latest a = PyStr (last (versions a))"
    using assms
    by (auto simp: ArchiveDir_def check_valid_def Let_def bind_io_def ret_def throw_def reading_def
                   logger_def emit_def falsy_def
             split: prod.splits sum.splits if_splits str_or_false.splits)
  have "last (versions a) \<in> set (find_versions w d)"
    using ne vs by (metis last_in_set)
  then have "CHR ''/'' \<notin> set (last (versions a))"
    by (rule find_versions_no_slash)
  moreover have "last (versions a) = Max (set (versions a))"
    using ne vs find_versions_last_Max by simp
  ultimately show ?thesis using vs ne lt by (simp add: str_less_def str_eq_def)
qed

subsection \<open>Evaluating the examples\<close>

lemmas prim_defs = world_of_def has_magic_def stat_def resolve_def lstat_def locate_def
  max_links_def is_abs_def
  rstrip_slash_def os_path_isdir_def os_path_isfile_def os_path_exists_def os_path_islink_def
  os_listdir_def path_is_symlink_def path_readlink_def as_posix_def os_path_join_def
  os_path_basename_def os_path_split_def

lemmas io_defs = ret_def bind_io_def throw_def reading_def emit_def logger_def

lemma valid_find_versions:
  "find_versions world_valid ''/arc/ds'' = [''v20200101'', ''v20200102'']"
  by (simp add: find_versions_def glob_versions_def fnmatch_version_def prim_defs
                world_valid_def tree_valid_def Let_def)

lemma valid_isdir: "os_path_isdir world_valid ''/arc/ds''"
  by (simp add: prim_defs world_valid_def tree_valid_def Let_def)

lemma valid_is_symlink: "path_is_symlink world_valid ''/arc/ds/latest''"
  by (simp add: prim_defs world_valid_def tree_valid_def Let_def)

lemma valid_readlink: "path_readlink world_valid ''/arc/ds/latest'' = Inr ''v20200102''"
  by (simp add: prim_defs world_valid_def tree_valid_def Let_def)

lemma valid_ArchiveDir: "ArchiveDir ''/arc/ds'' world_valid = (Inr arc_valid, world_valid)"
  by (simp add: ArchiveDir_def check_valid_def falsy_def valid_find_versions valid_isdir
                valid_is_symlink valid_readlink io_defs arc_valid_def Let_def)

lemma abs_find_versions:
  "find_versions world_abs_latest ''/arc/ds'' = [''v20200101'', ''v20200102'']"
  by (simp add: find_versions_def glob_versions_def fnmatch_version_def prim_defs
                world_abs_latest_def tree_abs_latest_def Let_def)

lemma abs_isdir: "os_path_isdir world_abs_latest ''/arc/ds''"
  by (simp add: prim_defs world_abs_latest_def tree_abs_latest_def Let_def)

lemma abs_is_symlink: "path_is_symlink world_abs_latest ''/arc/ds/latest''"
  by (simp add: prim_defs world_abs_latest_def tree_abs_latest_def Let_def)

lemma abs_lstat: "lstat world_abs_latest ''/arc/ds/latest'' = Inr (Symlink ''/arc/ds/v20200102'')"
  by (simp add: prim_defs world_abs_latest_def tree_abs_latest_def Let_def)

lemma abs_readlink: "path_readlink world_abs_latest ''/arc/ds/latest'' = Inr ''/arc/ds/v20200102''"
  by (simp add: prim_defs world_abs_latest_def tree_abs_latest_def Let_def)

lemma abs_ArchiveDir:
  "fst (ArchiveDir ''/arc/ds'' world_abs_latest) = Inr arc_abs_latest"
  by (simp add: ArchiveDir_def check_valid_def falsy_def abs_find_versions abs_isdir
                abs_is_symlink abs_readlink io_defs arc_abs_latest_def Let_def)

theorem valid_archive_latest_is_last_version_witness:
  "ArchiveDir ''/arc/ds'' world_valid = (Inr arc_valid, world_valid) \<and> valid arc_valid
   \<and> versions arc_valid = find_versions world_valid ''/arc/ds''
   \<and> versions arc_valid \<noteq> []
   \<and> latest arc_valid = PyStr (last (versions arc_valid))
   \<and> last (versions arc_valid) = Max (set (versions arc_valid))
   \<and> CHR ''/'' \<notin> set (last (versions arc_valid))
   \<and> str_less ''v20200101'' (latest arc_valid) = Inr (''v20200101'' < last (versions arc_valid))
   \<and> str_eq ''v20200101'' (latest arc_valid) = (''v20200101'' = last (versions arc_valid))"
proof -
  have h2: "valid arc_valid"
    by (simp add: arc_valid_def)
  show ?thesis
    using valid_archive_latest_is_last_version [OF valid_ArchiveDir h2, of "''v20200101''"]
          valid_ArchiveDir h2
    by blast
qed




text \<open>
  C8. The \<open>latest\<close> value of a dataset root is present exactly when the entry \<open>latest\<close>
  exists and is a symbolic link; it is then the whole target of the link, as pathlib prints
  it, with no check against the version pattern, and it is the base name of the target when
  the target is a single name. Otherwise the value is absent (\<open>False\<close>).
\<close>

theorem latest_is_whole_link_target:
  assumes "ArchiveDir d w = (Inr a, w')"
  shows "latest a = (case lstat w (as_posix (d @ ''/latest'')) of
                       Inr (Symlink t) \<Rightarrow> PyStr (as_posix t)
                     | _ \<Rightarrow> PyFalse)
         \<and> (\<forall>t. lstat w (as_posix (d @ ''/latest'')) = Inr (Symlink t)
                 \<and> CHR ''/'' \<notin> set t \<and> t \<noteq> [] \<and> t \<noteq> ''.''
               \<longrightarrow> latest a = PyStr (os_path_basename t))"
proof -
  have eq: "latest a = (if path_is_symlink w (d @ ''/latest'')
                        then (case path_readlink w (d @ ''/latest'') of
                                Inr t \<Rightarrow> PyStr t | Inl e \<Rightarrow> PyFalse)
                        else PyFalse)"
    using assms
    by (auto simp: ArchiveDir_def Let_def bind_io_def ret_def split: prod.splits sum.splits)
  have whole: "latest a = (case lstat w (as_posix (d @ ''/latest'')) of
                             Inr (Symlink t) \<Rightarrow> PyStr (as_posix t)
                           | _ \<Rightarrow> PyFalse)"
    unfolding eq
    by (simp add: path_is_symlink_def os_path_islink_def path_readlink_def
             split: sum.splits node.splits)
  show ?thesis
    using whole as_posix_single by (auto split: sum.splits node.splits)
qed

theorem latest_is_whole_link_target_witness:
  "latest arc_abs_latest = PyStr ''/arc/ds/v20200102''
   \<and> latest arc_valid = PyStr (os_path_basename ''v20200102'')"
proof -
  obtain w1 where a1: "ArchiveDir ''/arc/ds'' world_abs_latest = (Inr arc_abs_latest, w1)"
    using abs_ArchiveDir by (metis fst_conv surj_pair)
  have l1: "lstat world_abs_latest (as_posix (''/arc/ds'' @ ''/latest''))
            = Inr (Symlink ''/arc/ds/v20200102'')"
    by (simp add: prim_defs world_abs_latest_def tree_abs_latest_def Let_def)
  have l2: "lstat world_valid (as_posix (''/arc/ds'' @ ''/latest'')) = Inr (Symlink ''v20200102'')"
    by (simp add: prim_defs world_valid_def tree_valid_def Let_def)
  have p: "as_posix ''/arc/ds/v20200102'' = ''/arc/ds/v20200102''"
    "as_posix ''v20200102'' = ''v20200102''" "os_path_basename ''v20200102'' = ''v20200102''"
    by (simp_all add: as_posix_def os_path_basename_def)
  show ?thesis
    using latest_is_whole_link_target [OF a1] latest_is_whole_link_target [OF valid_ArchiveDir]
          l1 l2 p
    by simp
qed

text \<open>The claim as stated gives the base name of the target: with the target
  \<open>/arc/ds/v20200102\<close> the stored value is the whole path.\<close>

theorem latest_basename_counterexample:
  "lstat world_abs_latest ''/arc/ds/latest'' = Inr (Symlink ''/arc/ds/v20200102'')
   \<and> fst (ArchiveDir ''/arc/ds'' world_abs_latest) = Inr arc_abs_latest
   \<and> latest arc_abs_latest \<noteq> PyStr (os_path_basename ''/arc/ds/v20200102'')"
  by (simp add: abs_lstat abs_ArchiveDir)
     (simp add: arc_abs_latest_def os_path_basename_def)

subsection \<open>The version catalog\<close>

text \<open>
  C7. \<open>find_versions\<close> scans the immediate children of a dataset root and returns, in
  ascending order, the names matching the version pattern, a \<open>v\<close> followed by eight digits.
  The code matches the glob \<open>v????????\<close> instead: in the example \<open>vabcdefgh\<close> and \<open>v2019.bak\<close>
  are returned as versions, the latter before \<open>v20200101\<close>, while the pattern of
  \<open>identify_dirs\<close> rejects both.
\<close>

theorem find_versions_keeps_non_digits:
  "find_versions world_loose ''/arc/ds'' = [''v2019.bak'', ''v20200101'', ''vabcdefgh'']
   \<and> \<not> re_match_version ''vabcdefgh'' \<and> \<not> re_match_version ''v2019.bak''
   \<and> re_match_version ''v20200101''"
  by (simp add: find_versions_def glob_versions_def fnmatch_version_def prim_defs
                world_loose_def tree_loose_def Let_def re_match_version_def is_digit_def)

subsection \<open>The reconciliation engine\<close>

lemma report_gws_latest_frame:
  "\<exists>msgs. snd (report_gws_latest lead g p w) = w\<lparr>trace := trace w @ map (Log WARNING) msgs\<rparr>"
proof (cases "os_path_exists w (as_posix (g @ ''/latest''))")
  case True
  show ?thesis
  proof (cases "path_readlink w (g @ ''/latest'')")
    case (Inl e)
    with True have "snd (report_gws_latest lead g p w)
                    = w\<lparr>trace := trace w @ map (Log WARNING) []\<rparr>"
      by (simp add: report_gws_latest_def bind_io_def reading_def)
    then show ?thesis by blast
  next
    case (Inr t)
    with True have "snd (report_gws_latest lead g p w)
                    = w\<lparr>trace := trace w @ map (Log WARNING) [lead @ t]\<rparr>"
      by (simp add: report_gws_latest_def bind_io_def reading_def logger_def emit_def)
    then show ?thesis by blast
  qed
next
  case False
  then have "snd (report_gws_latest lead g p w)
             = w\<lparr>trace := trace w @ map (Log WARNING) [''    No latest link exists for '' @ p]\<rparr>"
    by (simp add: report_gws_latest_def logger_def emit_def)
  then show ?thesis by blast
qed

text \<open>
  C6. For a working version strictly greater than the archive's latest version the engine
  changes nothing in the file system: the tree and the working directory are as before, and
  the trace grows by calls to the logger only, among them the warning that the working
  version is newer than the archive.
\<close>

theorem newer_than_archive_no_mutation:
  assumes "latest arc_dir = PyStr l" and "l < gws_version"
  shows "root (snd (process_version bd1 bd2 gws_dr arc_dir gws_version w)) = root w
       \<and> cwd (snd (process_version bd1 bd2 gws_dr arc_dir gws_version w)) = cwd w
       \<and> (\<exists>msgs. trace (snd (process_version bd1 bd2 gws_dr arc_dir gws_version w))
                    = trace w @ map (\<lambda>(lv, m). Log lv m) msgs
                \<and> (WARNING, ''GWS version is newer than archive dir: ''
                      @ os_path_join gws_dr gws_version @ '' newer than ''
                      @ dr arc_dir @ ''/'' @ l) \<in> set msgs)"
proof -
  have a: "\<not> gws_version < l" "gws_version \<noteq> l" using assms(2) by auto
  let ?gv = "os_path_join gws_dr gws_version"
  let ?av = "os_path_join (dr arc_dir) gws_version"
  let ?m1 = "(DEBUG, ''[INFO] Working on: '' @ ?gv)"
  let ?m2 = "(DEBUG, ''              and: '' @ ?av)"
  let ?m3 = "(WARNING, ''GWS version is newer than archive dir: '' @ ?gv @ '' newer than ''
                        @ dr arc_dir @ ''/'' @ l)"
  let ?r = "process_version bd1 bd2 gws_dr arc_dir gws_version w"
  define w3 where "w3 = w\<lparr>trace := trace w @ map (\<lambda>(lv, m). Log lv m) [?m1, ?m2, ?m3]\<rparr>"
  have step: "?r = report_gws_latest ''    And latest link points to '' gws_dr ?gv w3"
    using a assms(1)
    by (simp add: process_version_def Let_def bind_io_def reading_def logger_def emit_def
                  str_less_def str_eq_def str_of_def w3_def)
  obtain extra where
    "snd ?r = w3\<lparr>trace := trace w3 @ map (Log WARNING) extra\<rparr>"
    using report_gws_latest_frame step by metis
  then have "snd ?r = w\<lparr>trace := trace w @ map (\<lambda>(lv, m). Log lv m)
                                 ([?m1, ?m2, ?m3] @ map (Pair WARNING) extra)\<rparr>"
    by (simp add: w3_def comp_def)
  then have "root (snd ?r) = root w" "cwd (snd ?r) = cwd w"
    "trace (snd ?r) = trace w @ map (\<lambda>(lv, m). Log lv m)
                                  ([?m1, ?m2, ?m3] @ map (Pair WARNING) extra)"
    by simp_all
  moreover have "?m3 \<in> set ([?m1, ?m2, ?m3] @ map (Pair WARNING) extra)" by simp
  ultimately show ?thesis by blast
qed

theorem newer_than_archive_no_mutation_witness:
  "root (snd (process_version ''/gws'' ''/arc'' ''/gws/ds'' arc_valid ''v20200103'' world_valid))
     = root world_valid
   \<and> cwd (snd (process_version ''/gws'' ''/arc'' ''/gws/ds'' arc_valid ''v20200103'' world_valid))
     = cwd world_valid
   \<and> (\<exists>msgs. trace (snd (process_version ''/gws'' ''/arc'' ''/gws/ds'' arc_valid ''v20200103''
                             world_valid))
                = trace world_valid @ map (\<lambda>(lv, m). Log lv m) msgs
            \<and> (WARNING, ''GWS version is newer than archive dir: ''
                  @ os_path_join ''/gws/ds'' ''v20200103'' @ '' newer than ''
                  @ dr arc_valid @ ''/'' @ ''v20200102'') \<in> set msgs)"
proof -
  have h1: "latest arc_valid = PyStr ''v20200102''"
    by (simp add: arc_valid_def)
  have h2: "''v20200102'' < ''v20200103''"
    by simp
  show ?thesis
    using newer_than_archive_no_mutation [OF h1 h2] by blast
qed

subsection \<open>The content verifier\<close>

lemma dirs_match_body_not_file:
  "\<not> os_path_isfile w (os_path_join d1 [i]) \<Longrightarrow> dirs_match_body d1 d2 i errs w = (Inr errs, w)"
  by (simp add: dirs_match_body_def Let_def ret_def)

lemma dirs_match_loop_no_files:
  "\<forall>i \<in> set cs. \<not> os_path_isfile w (os_path_join d1 [i])
   \<Longrightarrow> dirs_match_loop d1 d2 cs errs w = (Inr errs, w)"
  by (induction cs) (simp_all add: ret_def bind_io_def dirs_match_body_not_file)

lemma differs_nested_list_gws:
  "nested_list (world_of tree_differs t) ''/gws/ds/v20200101'' (Some ''/gws'')
   = Inr [''/ds/v20200101/data.nc'']"
  unfolding nested_list_def
  by (subst nested_list_depth.simps)
     (simp add: prim_defs tree_differs_def truthy_def str_replace_def)

lemma differs_nested_list_arc:
  "nested_list (world_of tree_differs t) ''/arc/ds/v20200101'' (Some ''/arc'')
   = Inr [''/ds/v20200101/data.nc'']"
  unfolding nested_list_def
  by (subst nested_list_depth.simps)
     (simp add: prim_defs tree_differs_def truthy_def str_replace_def)

lemma differs_no_file:
  "\<forall>i \<in> set ''/gws/ds/v20200101''.
     \<not> os_path_isfile (world_of tree_differs t)
         (os_path_join ''/gws/ds/v20200101'' [i])"
  by (simp add: prim_defs tree_differs_def)

lemma differs_dirs_match:
  "dirs_match ''/gws/ds/v20200101'' ''/arc/ds/v20200101'' ''/gws'' ''/arc''
     (world_of tree_differs t)
   = (Inr (Some True), (world_of tree_differs t))"
  by (simp add: dirs_match_def io_defs differs_nested_list_gws differs_nested_list_arc
                dirs_match_loop_no_files [OF differs_no_file]
           del: dirs_match_loop.simps)

text \<open>
  C3. \<open>dirs_match\<close> returns equality if and only if the two listings are identical and every
  pair of files matches in size and, where the sizes match, in digest. The code loops over the
  characters of the string \<open>d1\<close>, not over the listing: in the example the listings are equal,
  the one file differs in size and in digest, no size or content is read, and the result is
  \<open>True\<close>.
\<close>

theorem dirs_match_ignores_content:
  "stat world_differs ''/gws/ds/v20200101/data.nc'' = Inr (File 5 ''aaaa'')
   \<and> stat world_differs ''/arc/ds/v20200101/data.nc'' = Inr (File 7 ''bbbb'')
   \<and> nested_list world_differs ''/gws/ds/v20200101'' (Some ''/gws'')
       = nested_list world_differs ''/arc/ds/v20200101'' (Some ''/arc'')
   \<and> dirs_match ''/gws/ds/v20200101'' ''/arc/ds/v20200101'' ''/gws'' ''/arc'' world_differs
       = (Inr (Some True), world_differs)"
proof -
  have "stat world_differs ''/gws/ds/v20200101/data.nc'' = Inr (File 5 ''aaaa'')"
       "stat world_differs ''/arc/ds/v20200101/data.nc'' = Inr (File 7 ''bbbb'')"
    by (simp_all add: prim_defs world_differs_def tree_differs_def)
  then show ?thesis
    by (simp add: world_differs_def differs_nested_list_gws differs_nested_list_arc
                  differs_dirs_match)
qed

text \<open>
  C9. \<open>dirs_match\<close> applied to \<open>(X, Y)\<close> returns the same result as applied to \<open>(Y, X)\<close>.
  Because the loop runs over the characters of its first argument, the file \<open>g\<close>, which
  differs in size, is compared when the first directory is \<open>/gws/ds/v20200101\<close> (its path
  holds a \<open>g\<close>) and is not when the first directory is \<open>/arc/ds/v20200101\<close>.
\<close>

theorem dirs_match_not_symmetric:
  "fst (dirs_match ''/gws/ds/v20200101'' ''/arc/ds/v20200101'' ''/gws'' ''/arc'' world_asym)
     = Inr (Some False)
   \<and> fst (dirs_match ''/arc/ds/v20200101'' ''/gws/ds/v20200101'' ''/arc'' ''/gws'' world_asym)
     = Inr (Some True)"
proof -
  have l1: "nested_list world_asym ''/gws/ds/v20200101'' (Some ''/gws'') = Inr [''/ds/v20200101/g'']"
    unfolding nested_list_def
    by (subst nested_list_depth.simps)
       (simp add: prim_defs world_asym_def tree_asym_def truthy_def str_replace_def)
  have l2: "nested_list world_asym ''/arc/ds/v20200101'' (Some ''/arc'') = Inr [''/ds/v20200101/g'']"
    unfolding nested_list_def
    by (subst nested_list_depth.simps)
       (simp add: prim_defs world_asym_def tree_asym_def truthy_def str_replace_def)
  have nf: "\<forall>i \<in> set ''/arc/ds/v20200101''.
             \<not> os_path_isfile world_asym (os_path_join ''/arc/ds/v20200101'' [i])"
    by (simp add: prim_defs world_asym_def tree_asym_def)
  have a: "fst (dirs_match ''/gws/ds/v20200101'' ''/arc/ds/v20200101'' ''/gws'' ''/arc'' world_asym)
           = Inr (Some False)"
    by (simp add: dirs_match_def l1 l2 io_defs)
       (simp add: dirs_match_body_def size_f_def md5_def io_defs prim_defs world_asym_def
                  tree_asym_def Let_def)
  have b: "fst (dirs_match ''/arc/ds/v20200101'' ''/gws/ds/v20200101'' ''/arc'' ''/gws'' world_asym)
           = Inr (Some True)"
    by (simp add: dirs_match_def io_defs l1 l2 dirs_match_loop_no_files [OF nf]
             del: dirs_match_loop.simps)
  show ?thesis using a b by simp
qed

subsection \<open>Runs of the engine\<close>

lemmas engine_defs = main_def process_dataset_def process_version_def VersionDir_def
  ArchiveDir_def check_valid_def report_gws_latest_def str_less_def str_eq_def str_of_def
  falsy_def str_replace_def identify_dirs_def os_walk_def re_match_version_def is_digit_def
  find_versions_def glob_versions_def fnmatch_version_def delete_dir_def symlink_def
  os_remove_def os_rmdir_def os_symlink_def Let_def

lemma differs_main:
  "main ''/gws'' ''/arc'' world_differs
   = (Inr (),
      (world_of tree_differs_after
         [Log DEBUG ''[INFO] Working on: /gws/ds/v20200101'',
          Log DEBUG ''              and: /arc/ds/v20200101'',
          Log WARNING ''Deleting files in: /gws/ds/v20200101'',
          Os_remove ''/gws/ds/v20200101/data.nc'',
          Log WARNING ''Deleting directory: /gws/ds/v20200101'',
          Os_rmdir ''/gws/ds/v20200101'',
          Log WARNING ''Symlinking /gws/ds/v20200101 to: /arc/ds/v20200101'',
          Os_symlink ''/arc/ds/v20200101'' ''/gws/ds/v20200101'',
          Log WARNING ''[ACTION] Deleted /gws/ds/v20200101 and symlinked to: /arc/ds/v20200101'',
          Log WARNING ''    Archive latest link points to v20200101'',
          Log WARNING ''    No latest link exists for /gws/ds/v20200101'']))"
  by (simp add: engine_defs io_defs prim_defs differs_dirs_match [unfolded world_of_def tree_differs_def]
                world_differs_def tree_differs_def tree_differs_after_def)

text \<open>
  C1. No-loss guarantee: a working version equal to the archive's latest whose content
  differs from the archive copy in a file's size or digest is neither deleted nor replaced
  by a link. In the example the working file has size 5 and the archive file size 7; since
  \<open>dirs_match\<close> answers \<open>True\<close>, the run removes the working file and its directory and puts a
  link in its place.
\<close>

theorem differing_latest_version_is_deleted:
  "stat world_differs ''/gws/ds/v20200101/data.nc'' = Inr (File 5 ''aaaa'')
   \<and> stat world_differs ''/arc/ds/v20200101/data.nc'' = Inr (File 7 ''bbbb'')
   \<and> fst (main ''/gws'' ''/arc'' world_differs) = Inr ()
   \<and> mutations (trace (snd (main ''/gws'' ''/arc'' world_differs)))
       = [Os_remove ''/gws/ds/v20200101/data.nc'', Os_rmdir ''/gws/ds/v20200101'',
          Os_symlink ''/arc/ds/v20200101'' ''/gws/ds/v20200101'']
   \<and> lstat (snd (main ''/gws'' ''/arc'' world_differs)) ''/gws/ds/v20200101''
       = Inr (Symlink ''/arc/ds/v20200101'')"
proof -
  have "stat world_differs ''/gws/ds/v20200101/data.nc'' = Inr (File 5 ''aaaa'')"
       "stat world_differs ''/arc/ds/v20200101/data.nc'' = Inr (File 7 ''bbbb'')"
    by (simp_all add: prim_defs world_differs_def tree_differs_def)
  then show ?thesis
    by (simp add: differs_main mutations_def)
       (simp add: prim_defs tree_differs_after_def)
qed

lemma stale_main_once:
  "main ''/gws'' ''/arc'' world_stale
   = (Inr (),
      (world_of tree_stale_once
         [Log DEBUG ''[INFO] Working on: /gws/ds/v20200101'',
          Log DEBUG ''              and: /arc/ds/v20200101'',
          Log WARNING ''Deleting files in: /gws/ds/v20200101'',
          Os_remove ''/gws/ds/v20200101/a.nc'',
          Log WARNING ''Deleting directory: /gws/ds/v20200101'',
          Os_rmdir ''/gws/ds/v20200101'',
          Log WARNING ''Symlinking /gws/ds/v20200101 to: /arc/ds/v20200101'',
          Os_symlink ''/arc/ds/v20200101'' ''/gws/ds/v20200101'',
          Log WARNING ''[ACTION] Deleted old version in GWS: /gws/ds/v20200101'']))"
  by (simp add: engine_defs io_defs prim_defs world_stale_def tree_stale_def tree_stale_once_def)

lemma stale_main_twice:
  "main ''/gws'' ''/arc'' (world_of tree_stale_once [])
   = (Inl NotADirectoryError,
      (world_of tree_stale_twice
         [Log DEBUG ''[INFO] Working on: /gws/ds/v20200101'',
          Log DEBUG ''              and: /arc/ds/v20200101'',
          Log WARNING ''Deleting files in: /gws/ds/v20200101'',
          Os_remove ''/gws/ds/v20200101/a.nc'',
          Log WARNING ''Deleting directory: /gws/ds/v20200101'']))"
  by (simp add: engine_defs io_defs prim_defs tree_stale_once_def tree_stale_twice_def)

text \<open>
  C2. Idempotence: a second run on the state the first run leaves performs no \<open>delete_dir\<close>
  and no \<open>symlink\<close>. In the example the first run replaces the stale working version by a
  link into the archive. The second run finds the same version older than the archive's
  latest again and calls \<open>delete_dir\<close> on the link: it lists the archive directory through
  the link, removes the archive's file, and stops with NotADirectoryError at \<open>os.rmdir\<close>.
\<close>

theorem second_run_deletes_archive_file:
  "root (snd (main ''/gws'' ''/arc'' world_stale)) = tree_stale_once
   \<and> cwd (snd (main ''/gws'' ''/arc'' world_stale)) = []
   \<and> fst (main ''/gws'' ''/arc'' (world_of tree_stale_once []))
       = Inl NotADirectoryError
   \<and> mutations (trace (snd (main ''/gws'' ''/arc''
                               (world_of tree_stale_once []))))
       = [Os_remove ''/gws/ds/v20200101/a.nc'']
   \<and> stat (world_of tree_stale_once []) ''/arc/ds/v20200101/a.nc''
       = Inr (File 5 ''d41d'')
   \<and> stat (snd (main ''/gws'' ''/arc'' (world_of tree_stale_once [])))
        ''/arc/ds/v20200101/a.nc''
       = Inl FileNotFoundError"
  by (simp add: stale_main_once stale_main_twice mutations_def)
     (simp add: prim_defs tree_stale_once_def tree_stale_twice_def)

section \<open>Stale cleanup\<close>

subsection \<open>Looking up and changing the tree\<close>

lemma lookup_append:
  "lookup r (p @ q) = (case lookup r p of None \<Rightarrow> None | Some m \<Rightarrow> lookup m q)"
proof (induction p arbitrary: r)
  case Nil
  then show ?case by simp
next
  case (Cons c p)
  then show ?case by (cases r) (auto split: option.splits)
qed

lemma lookup_child:
  "lookup r P = Some (Dir s es) \<Longrightarrow> lookup r (P @ [c]) = map_of es c"
  by (simp add: lookup_append split: option.splits)

lemma lookup_child_Some:
  assumes "lookup r (P @ [c]) = Some m"
  shows "\<exists>s es. lookup r P = Some (Dir s es) \<and> map_of es c = Some m"
proof -
  obtain x where x: "lookup r P = Some x" "lookup x [c] = Some m"
    using assms by (auto simp: lookup_append split: option.splits)
  then show ?thesis by (cases x) (auto split: option.splits)
qed

lemma map_of_map_entry:
  "map_of (map (\<lambda>e. if fst e = c then (fst e, h (snd e)) else e) es) k
   = (if k = c then map_option h (map_of es c) else map_of es k)"
  by (induction es) auto

lemma lookup_modify_prefix:
  "lookup (modify (P @ Q) f r) P = map_option (modify Q f) (lookup r P)"
proof (induction P arbitrary: r)
  case Nil
  then show ?case by simp
next
  case (Cons c P)
  show ?case
  proof (cases r)
    case (Dir s es)
    then show ?thesis
      using Cons.IH by (simp add: map_of_map_entry split: option.splits)
  qed simp_all
qed

lemma lookup_modify_same:
  "lookup r P = Some (Dir s es) \<Longrightarrow> lookup (modify P f r) P = Some (Dir s (f es))"
  using lookup_modify_prefix [of P "[]" f r] by simp

lemma modify_modify:
  "modify P f (modify P g r) = modify P (\<lambda>es. f (g es)) r"
proof (induction P arbitrary: r)
  case Nil
  then show ?case by (cases r) simp_all
next
  case (Cons c P)
  then show ?case by (cases r) (simp_all add: comp_def)
qed

lemma modify_snoc:
  "modify (P @ [g]) f r
   = modify P (map (\<lambda>e. if fst e = g then (fst e, modify [] f (snd e)) else e)) r"
proof (induction P arbitrary: r)
  case Nil
  then show ?case by (cases r) simp_all
next
  case (Cons c P)
  then show ?case by (cases r) simp_all
qed

lemma modify_ident:
  "(\<And>es. f es = es) \<Longrightarrow> modify P f r = r"
proof (induction P arbitrary: r)
  case Nil
  then show ?case by (cases r) simp_all
next
  case (Cons c P)
  have ih: "\<And>r. modify P f r = r"
    using Cons.IH Cons.prems by blast
  have "\<And>e. (if fst e = c then (fst e, modify P f (snd e)) else e) = e"
    by (auto simp: ih)
  then show ?case by (cases r) simp_all
qed

lemma map_of_filter_other:
  "k \<noteq> n \<Longrightarrow> map_of (filter (\<lambda>e. fst e \<noteq> n) es) k = map_of es k"
  by (induction es) auto

lemma map_of_filter_self:
  "map_of (filter (\<lambda>e. fst e \<noteq> n) es) n = None"
  by (induction es) auto

lemma filter_map_entry:
  "filter (\<lambda>e. fst e \<noteq> g) (map (\<lambda>e. if fst e = g then (fst e, h (snd e)) else e) es)
   = filter (\<lambda>e. fst e \<noteq> g) es"
  by (induction es) auto

text \<open>A change of the entry \<open>g\<close> of the directory \<open>P\<close> is not seen outside \<open>P @ [g]\<close>.\<close>

lemma shape_modify_outside:
  assumes h: "\<And>es k. k \<noteq> g \<Longrightarrow> map_of (h es) k = map_of es k"
  shows "\<not> prefix (P @ [g]) q \<Longrightarrow> shape_of (lookup (modify P h r) q) = shape_of (lookup r q)"
proof (induction P arbitrary: r q)
  case Nil
  show ?case
  proof (cases r)
    case (Dir s es)
    show ?thesis
    proof (cases q)
      case Nil
      then show ?thesis using Dir by simp
    next
      case (Cons c q')
      with Nil.prems have "c \<noteq> g" by auto
      then show ?thesis using Dir Cons h by simp
    qed
  qed simp_all
next
  case step: (Cons p P)
  show ?case
  proof (cases r)
    case (Dir s es)
    show ?thesis
    proof (cases q)
      case Nil
      then show ?thesis using Dir by simp
    next
      case (Cons c q')
      show ?thesis
      proof (cases "c = p")
        case True
        with step.prems Cons have np: "\<not> prefix (P @ [g]) q'" by simp
        show ?thesis
          using Dir Cons True step.IH [OF np]
          by (simp add: map_of_map_entry split: option.splits)
      next
        case False
        then show ?thesis using Dir Cons by (simp add: map_of_map_entry)
      qed
    qed
  qed simp_all
qed

lemma shape_dir: "shape_of x = A_dir \<longleftrightarrow> (\<exists>s es. x = Some (Dir s es))"
  by (cases x rule: shape_of.cases) auto

lemma shape_link: "shape_of x = A_link t \<longleftrightarrow> x = Some (Symlink t)"
  by (cases x rule: shape_of.cases) auto

lemma shape_file: "shape_of x = A_file \<longleftrightarrow> (\<exists>s d. x = Some (File s d))"
  by (cases x rule: shape_of.cases) auto

lemma shape_absent: "shape_of x = Absent \<longleftrightarrow> x = None"
  by (cases x rule: shape_of.cases) auto

subsection \<open>Resolution outside a directory\<close>

lemma walk_path_outside:
  assumes agree: "\<And>q. \<not> prefix G q \<Longrightarrow> shape_of (lookup r' q) = shape_of (lookup r q)"
  shows "walk_outside r n cur cs G
         \<Longrightarrow> walk_path r' n cur cs = walk_path r n cur cs \<and> walk_outside r' n cur cs G"
  using agree
proof (induction r n cur cs G rule: walk_outside.induct)
  case (1 r n cur G)
  then show ?case by simp
next
  case (2 r n cur c cs G)
  have np: "\<not> prefix G cur"
    using "2.prems"(1) by simp
  have sh: "shape_of (lookup r' cur) = shape_of (lookup r cur)"
    using "2.prems"(2) np by blast
  show ?case
  proof (cases "\<exists>s es. lookup r cur = Some (Dir s es)")
    case False
    then have "shape_of (lookup r cur) \<noteq> A_dir" by (simp add: shape_dir)
    then have "\<not> (\<exists>s es. lookup r' cur = Some (Dir s es))"
      using sh by (metis shape_dir)
    then show ?thesis
      using False np by (auto split: option.splits node.splits)
  next
    case True
    then obtain s es where d: "lookup r cur = Some (Dir s es)" by blast
    then have "shape_of (lookup r' cur) = A_dir" using sh by simp
    then obtain s' es' where d': "lookup r' cur = Some (Dir s' es')"
      by (auto simp: shape_dir)
    show ?thesis
    proof (cases "c = [] \<or> c = ''.''")
      case True
      then show ?thesis
        using "2.IH"(1) [OF True d] "2.prems" d d' np by auto
    next
      case nc: False
      show ?thesis
      proof (cases "c = ''..''")
        case True
        then show ?thesis
          using "2.IH"(2) [OF nc True d] "2.prems" d d' np nc by auto
      next
        case nd: False
        have ng: "cur @ [c] \<noteq> G"
          using "2.prems"(1) nc nd d by simp
        then have "\<not> prefix G (cur @ [c])"
          using np by (simp add: prefix_snoc)
        then have "shape_of (lookup r' (cur @ [c])) = shape_of (lookup r (cur @ [c]))"
          using "2.prems"(2) by blast
        then have se: "shape_of (map_of es' c) = shape_of (map_of es c)"
          using d d' by (simp add: lookup_child)
        show ?thesis
        proof (cases "map_of es c")
          case None
          then have "map_of es' c = None" using se by (simp add: shape_absent)
          then show ?thesis using None nc nd d d' np ng by simp
        next
          case (Some m)
          show ?thesis
          proof (cases m)
            case (Symlink t)
            then have l': "map_of es' c = Some (Symlink t)"
              using se Some by (simp add: shape_link)
            show ?thesis
            proof (cases "n = 0 \<or> t = []")
              case True
              then show ?thesis using Some Symlink l' nc nd d d' np ng by auto
            next
              case False
              then have n0: "n \<noteq> 0" and t0: "t \<noteq> []" by simp_all
              have wo: "walk_outside r (n - 1) (if is_abs t then [] else cur) (split_slash t @ cs) G"
                using "2.prems"(1) Some Symlink nc nd d n0 t0 by simp
              have "walk_path r' (n - 1) (if is_abs t then [] else cur) (split_slash t @ cs)
                      = walk_path r (n - 1) (if is_abs t then [] else cur) (split_slash t @ cs)
                    \<and> walk_outside r' (n - 1) (if is_abs t then [] else cur) (split_slash t @ cs) G"
                using "2.IH"(4) [OF nc nd d refl Some Symlink n0 t0] wo "2.prems"(2) by blast
              then show ?thesis
                using Some Symlink l' nc nd d d' np ng n0 t0 by simp
            qed
          next
            case (File sz dg)
            then obtain sz' dg' where l': "map_of es' c = Some (File sz' dg')"
              using se Some by (auto simp: shape_file)
            have wo: "walk_outside r n (cur @ [c]) cs G"
              using "2.prems"(1) Some File nc nd d by simp
            have "walk_path r' n (cur @ [c]) cs = walk_path r n (cur @ [c]) cs
                  \<and> walk_outside r' n (cur @ [c]) cs G"
              using "2.IH"(3) [OF nc nd d refl Some File] wo "2.prems"(2) by blast
            then show ?thesis
              using Some File l' nc nd d d' np ng by simp
          next
            case (Dir sz es2)
            then obtain sz' es2' where l': "map_of es' c = Some (Dir sz' es2')"
              using se Some by (auto simp: shape_dir)
            have wo: "walk_outside r n (cur @ [c]) cs G"
              using "2.prems"(1) Some Dir nc nd d by simp
            have "walk_path r' n (cur @ [c]) cs = walk_path r n (cur @ [c]) cs
                  \<and> walk_outside r' n (cur @ [c]) cs G"
              using "2.IH"(5) [OF nc nd d refl Some Dir] wo "2.prems"(2) by blast
            then show ?thesis
              using Some Dir l' nc nd d d' np ng by simp
          qed
        qed
      qed
    qed
  qed
qed

lemma walk_path_snoc:
  assumes v: "valid_name v" and m: "\<not> (\<exists>t. m = Symlink t)"
  shows "walk_path r n cur cs = Inr P \<Longrightarrow> lookup r (P @ [v]) = Some m
         \<Longrightarrow> walk_path r n cur (cs @ [v]) = Inr (P @ [v])"
proof (induction r n cur cs rule: walk_path.induct)
  case (1 r n cur)
  then have P: "P = cur" by simp
  obtain s es where d: "lookup r cur = Some (Dir s es)" "map_of es v = Some m"
    using lookup_child_Some [of r cur v m] "1.prems"(2) P by auto
  have c: "v \<noteq> []" "v \<noteq> ''.''" "v \<noteq> ''..''"
    using v by (simp_all add: valid_name_def)
  show ?case
    using P d c m by (cases m) simp_all
next
  case (2 r n cur c cs)
  note w = "2.prems"(1) and l = "2.prems"(2)
  obtain s es where d: "lookup r cur = Some (Dir s es)"
    using w by (auto split: if_splits option.splits node.splits)
  show ?case
  proof (cases "c = [] \<or> c = ''.''")
    case True
    then show ?thesis
      using "2.IH"(1) [OF True d] w l d by auto
  next
    case nc: False
    show ?thesis
    proof (cases "c = ''..''")
      case True
      then show ?thesis
        using "2.IH"(2) [OF nc True d] w l d nc by auto
    next
      case nd: False
      obtain m' where sm: "map_of es c = Some m'"
        using w nc nd d by (auto split: option.splits)
      show ?thesis
      proof (cases m')
        case (Symlink t)
        have n0: "n \<noteq> 0" and t0: "t \<noteq> []"
          using w nc nd d sm Symlink by (auto split: if_splits)
        have "walk_path r (n - 1) (if is_abs t then [] else cur) (split_slash t @ cs) = Inr P"
          using w nc nd d sm Symlink n0 t0 by simp
        then have "walk_path r (n - 1) (if is_abs t then [] else cur) ((split_slash t @ cs) @ [v])
                   = Inr (P @ [v])"
          using "2.IH"(4) [OF nc nd d refl sm Symlink n0 t0] l by blast
        then show ?thesis
          using nc nd d sm Symlink n0 t0 by simp
      next
        case (File sz dg)
        have "walk_path r n (cur @ [c]) cs = Inr P"
          using w nc nd d sm File by simp
        then have "walk_path r n (cur @ [c]) (cs @ [v]) = Inr (P @ [v])"
          using "2.IH"(3) [OF nc nd d refl sm File] l by blast
        then show ?thesis
          using nc nd d sm File by simp
      next
        case (Dir sz es2)
        have "walk_path r n (cur @ [c]) cs = Inr P"
          using w nc nd d sm Dir by simp
        then have "walk_path r n (cur @ [c]) (cs @ [v]) = Inr (P @ [v])"
          using "2.IH"(5) [OF nc nd d refl sm Dir] l by blast
        then show ?thesis
          using nc nd d sm Dir by simp
      qed
    qed
  qed
qed

subsection \<open>Paths that name a directory entry\<close>

lemma split_slash_singleton: "split_slash p = [x] \<Longrightarrow> p = x"
proof (induction p arbitrary: x)
  case Nil
  then show ?case by simp
next
  case (Cons c p)
  then show ?case
    by (cases "split_slash p") (auto simp: split_slash_nonempty split: if_splits)
qed

lemma last_split_slash_empty:
  "last (split_slash p) = [] \<longleftrightarrow> p = [] \<or> last p = CHR ''/''"
proof (induction p)
  case Nil
  then show ?case by simp
next
  case (Cons a p)
  obtain x xs where sp: "split_slash p = x # xs"
    using split_slash_nonempty [of p] by (cases "split_slash p") auto
  show ?case
  proof (cases "a = CHR ''/''")
    case True
    then show ?thesis using Cons.IH sp by auto
  next
    case False
    show ?thesis
    proof (cases "xs = []")
      case True
      with sp have "p = x" by (simp add: split_slash_singleton)
      moreover have "CHR ''/'' \<notin> set x"
        using sp split_slash_no_slash [of x p] by simp
      ultimately have "p = [] \<or> last p \<noteq> CHR ''/''"
        using last_in_set by fastforce
      then show ?thesis using False True sp by auto
    next
      case nonempty: False
      then have "p \<noteq> []" using sp by auto
      then show ?thesis using False nonempty sp Cons.IH by auto
    qed
  qed
qed

lemma last_split_slash_nonempty:
  "last (split_slash p) \<noteq> [] \<Longrightarrow> p \<noteq> [] \<and> last p \<noteq> CHR ''/''"
  using last_split_slash_empty by blast

lemma rstrip_slash_id: "p \<noteq> [] \<Longrightarrow> last p \<noteq> CHR ''/'' \<Longrightarrow> rstrip_slash p = p"
  by (cases p rule: rev_cases) (auto simp: rstrip_slash_def)

lemma split_slash_append:
  "split_slash (a @ CHR ''/'' # b) = split_slash a @ split_slash b"
  by (induction a) (auto simp: split_slash_nonempty split: list.splits)

lemma split_slash_append_name:
  "CHR ''/'' \<notin> set v
   \<Longrightarrow> split_slash (a @ v) = butlast (split_slash a) @ [last (split_slash a) @ v]"
proof (induction a)
  case Nil
  then show ?case by (simp add: split_slash_single)
next
  case (Cons c a)
  obtain y ys where sp: "split_slash a = y # ys"
    using split_slash_nonempty [of a] by (cases "split_slash a") auto
  show ?case
    using Cons sp by (cases "ys = []") auto
qed

lemma join_name:
  assumes "valid_name v"
  shows "os_path_join a v \<noteq> []" "last (os_path_join a v) \<noteq> CHR ''/''"
        "last (split_slash (os_path_join a v)) = v"
proof -
  from assms have v: "v \<noteq> []" "CHR ''/'' \<notin> set v"
    by (simp_all add: valid_name_def)
  then have hd: "take 1 v \<noteq> ''/''"
    by (cases v) auto
  have lv: "last v \<noteq> CHR ''/''"
    using v last_in_set by fastforce
  show "os_path_join a v \<noteq> []"
    using v by (simp add: os_path_join_def)
  show "last (os_path_join a v) \<noteq> CHR ''/''"
    using v lv hd by (simp add: os_path_join_def)
  show "last (split_slash (os_path_join a v)) = v"
  proof (cases "a = [] \<or> last a = CHR ''/''")
    case True
    then have "last (split_slash a) = []"
      by (simp add: last_split_slash_empty)
    then show ?thesis
      using True hd v by (simp add: os_path_join_def split_slash_append_name)
  next
    case False
    then show ?thesis
      using hd v by (simp add: os_path_join_def split_slash_append split_slash_single)
  qed
qed

lemma names_entry_agree:
  assumes ne: "names_entry w p P v"
    and agree: "\<And>q. \<not> prefix (P @ [v]) q
                  \<Longrightarrow> shape_of (lookup (root w') q) = shape_of (lookup (root w) q)"
    and cwd: "cwd w' = cwd w"
  shows "names_entry w' p P v"
proof -
  have st: "start_dir w' p = start_dir w p"
    using cwd by (simp add: start_dir_def)
  have "\<not> prefix (P @ [v]) P"
    by (simp add: prefix_def)
  then have "shape_of (lookup (root w') P) = shape_of (lookup (root w) P)"
    using agree by blast
  moreover have
    "walk_path (root w') max_links (start_dir w p) (butlast (split_slash p))
       = walk_path (root w) max_links (start_dir w p) (butlast (split_slash p))
     \<and> walk_outside (root w') max_links (start_dir w p) (butlast (split_slash p)) (P @ [v])"
    using walk_path_outside [of "P @ [v]" "root w'" "root w"] agree ne
    by (simp add: names_entry_def)
  ultimately show ?thesis
    using ne st by (simp add: names_entry_def)
qed

lemma names_entry_modify:
  assumes ne: "names_entry w p P v"
    and h: "\<And>es k. k \<noteq> v \<Longrightarrow> map_of (h es) k = map_of es k"
    and r: "root w' = modify P h (root w)" and c: "cwd w' = cwd w"
  shows "names_entry w' p P v"
  using names_entry_agree [OF ne _ c] shape_modify_outside [of v h P] h r by simp

lemma names_entry_modify_child:
  assumes ne: "names_entry w p P v"
    and r: "root w' = modify (P @ [v]) f (root w)" and c: "cwd w' = cwd w"
  shows "names_entry w' p P v"
proof -
  have rr: "root w' = modify P (map (\<lambda>e. if fst e = v then (fst e, modify [] f (snd e)) else e))
                             (root w)"
    using r by (simp add: modify_snoc)
  show ?thesis
    by (rule names_entry_modify [OF ne _ rr c]) (simp add: map_of_map_entry)
qed

lemma locate_entry:
  assumes "names_entry w p P v"
  shows "locate w p = Inr (P, v)"
proof -
  from assms have p: "p \<noteq> []" "last p \<noteq> CHR ''/''" and v: "valid_name v"
    and l: "last (split_slash p) = v"
    and wk: "walk_path (root w) max_links (start_dir w p) (butlast (split_slash p)) = Inr P"
    and d: "shape_of (lookup (root w) P) = A_dir"
    by (simp_all add: names_entry_def)
  have rs: "rstrip_slash p = p" using p by (rule rstrip_slash_id)
  obtain s es where "lookup (root w) P = Some (Dir s es)"
    using d by (auto simp: shape_dir)
  then show ?thesis
    using p rs l v wk by (simp add: locate_def Let_def valid_name_def start_dir_def)
qed

lemma resolve_entry:
  assumes ne: "names_entry w p P v" and m: "lookup (root w) (P @ [v]) = Some m"
    and nl: "\<not> (\<exists>t. m = Symlink t)"
  shows "walk_path (root w) max_links (start_dir w p) (split_slash p) = Inr (P @ [v])"
proof -
  from ne have v: "valid_name v" and l: "last (split_slash p) = v"
    and wk: "walk_path (root w) max_links (start_dir w p) (butlast (split_slash p)) = Inr P"
    by (simp_all add: names_entry_def)
  have "split_slash p = butlast (split_slash p) @ [v]"
    using l split_slash_nonempty [of p] by (metis append_butlast_last_id)
  then show ?thesis
    using walk_path_snoc [OF v nl wk m] by simp
qed

lemma os_listdir_entry:
  assumes ne: "names_entry w p P v" and m: "lookup (root w) (P @ [v]) = Some (Dir s es)"
  shows "os_listdir w p = Inr (map fst es)"
proof -
  have "p \<noteq> []" using ne by (simp add: names_entry_def)
  then show ?thesis
    using resolve_entry [OF ne m] m
    by (simp add: os_listdir_def stat_def resolve_def start_dir_def)
qed

lemma locate_child:
  assumes ne: "names_entry w p P v" and m: "lookup (root w) (P @ [v]) = Some (Dir s es)"
    and f: "valid_name f"
  shows "locate w (p @ ''/'' @ f) = Inr (P @ [v], f)"
proof -
  let ?q = "p @ CHR ''/'' # f"
  from ne have p: "p \<noteq> []" by (simp add: names_entry_def)
  from f have f': "f \<noteq> []" "CHR ''/'' \<notin> set f" "f \<noteq> ''.''" "f \<noteq> ''..''"
    by (simp_all add: valid_name_def)
  then have "last f \<noteq> CHR ''/''" using last_in_set by fastforce
  then have "last ?q \<noteq> CHR ''/''" using f' by simp
  then have rs: "rstrip_slash ?q = ?q" by (simp add: rstrip_slash_id)
  have sp: "split_slash ?q = split_slash p @ [f]"
    using f' by (simp add: split_slash_append split_slash_single)
  have ab: "is_abs ?q = is_abs p"
    using p by (cases p) (simp_all add: is_abs_def)
  have wk: "walk_path (root w) max_links (start_dir w p) (split_slash p) = Inr (P @ [v])"
    using resolve_entry [OF ne m] by simp
  show ?thesis
    using rs sp ab wk m f' by (simp add: locate_def Let_def start_dir_def)
qed

subsection \<open>The mutating calls on a directory entry\<close>

lemma os_remove_child:
  assumes ne: "names_entry w p P v" and d: "lookup (root w) (P @ [v]) = Some (Dir s es)"
    and f: "valid_name f" and m: "map_of es f = Some m" and nd: "\<not> is_dir_node m"
  shows "os_remove (p @ ''/'' @ f) w
         = (Inr (), w\<lparr>root := modify (P @ [v]) (filter (\<lambda>e. fst e \<noteq> f)) (root w),
                       trace := trace w @ [Os_remove (p @ ''/'' @ f)]\<rparr>)"
proof -
  have l: "lookup (root w) ((P @ [v]) @ [f]) = Some m"
    using lookup_child [OF d, of f] m by simp
  have "f \<noteq> []" "CHR ''/'' \<notin> set f"
    using f by (simp_all add: valid_name_def)
  then have "last f \<noteq> CHR ''/''" using last_in_set by fastforce
  then have e: "last (p @ CHR ''/'' # f) \<noteq> CHR ''/''"
    using \<open>f \<noteq> []\<close> by simp
  show ?thesis
    using locate_child [OF ne d f] l nd e
    by (cases m) (simp_all add: os_remove_def)
qed

lemma os_rmdir_entry:
  assumes ne: "names_entry w p P v" and d: "lookup (root w) (P @ [v]) = Some (Dir s [])"
  shows "os_rmdir p w
         = (Inr (), w\<lparr>root := modify P (filter (\<lambda>e. fst e \<noteq> v)) (root w),
                       trace := trace w @ [Os_rmdir p]\<rparr>)"
  using locate_entry [OF ne] d by (simp add: os_rmdir_def)

lemma os_symlink_entry:
  assumes ne: "names_entry w p P v" and d: "lookup (root w) (P @ [v]) = None"
    and t: "target \<noteq> []"
  shows "os_symlink target p w
         = (Inr (), w\<lparr>root := modify P (\<lambda>es. es @ [(v, Symlink target)]) (root w),
                       trace := trace w @ [Os_symlink target p]\<rparr>)"
proof -
  have "p \<noteq> []" "last p \<noteq> CHR ''/''"
    using ne by (simp_all add: names_entry_def)
  then show ?thesis
    using locate_entry [OF ne] d t by (simp add: os_symlink_def)
qed

text \<open>The loop of \<open>delete_dir\<close> over the names of a flat directory.\<close>

lemma for_each_remove:
  "names_entry w gv P v \<Longrightarrow> lookup (root w) (P @ [v]) = Some (Dir s es) \<Longrightarrow> distinct ns
   \<Longrightarrow> \<forall>n \<in> set ns. valid_name n \<and> (\<exists>m. map_of es n = Some m \<and> \<not> is_dir_node m)
   \<Longrightarrow> for_each ns (\<lambda>fname. os_remove (gv @ ''/'' @ fname)) w
       = (Inr (), w\<lparr>root := modify (P @ [v]) (filter (\<lambda>e. fst e \<notin> set ns)) (root w),
                     trace := trace w @ map (\<lambda>fname. Os_remove (gv @ ''/'' @ fname)) ns\<rparr>)"
proof (induction ns arbitrary: w es)
  case Nil
  have "modify (P @ [v]) (\<lambda>a. a) (root w) = root w"
    by (rule modify_ident) simp
  then show ?case by (simp add: ret_def)
next
  case (Cons n ns)
  from Cons.prems(4) obtain m where n: "valid_name n" "map_of es n = Some m" "\<not> is_dir_node m"
    by auto
  let ?p = "gv @ ''/'' @ n"
  define w1 where "w1 = w\<lparr>root := modify (P @ [v]) (filter (\<lambda>e. fst e \<noteq> n)) (root w),
                           trace := trace w @ [Os_remove ?p]\<rparr>"
  have rm: "os_remove ?p w = (Inr (), w1)"
    using os_remove_child [OF Cons.prems(1,2) n] by (simp add: w1_def)
  have ne1: "names_entry w1 gv P v"
    by (rule names_entry_modify_child [OF Cons.prems(1)]) (simp_all add: w1_def)
  have l1: "lookup (root w1) (P @ [v]) = Some (Dir s (filter (\<lambda>e. fst e \<noteq> n) es))"
    using lookup_modify_same [OF Cons.prems(2)] by (simp add: w1_def)
  have d1: "distinct ns" and nn: "n \<notin> set ns"
    using Cons.prems(3) by simp_all
  have e1: "\<forall>k \<in> set ns. valid_name k
              \<and> (\<exists>m. map_of (filter (\<lambda>e. fst e \<noteq> n) es) k = Some m \<and> \<not> is_dir_node m)"
  proof
    fix k assume k: "k \<in> set ns"
    then have "k \<noteq> n" using nn by auto
    then have "map_of (filter (\<lambda>e. fst e \<noteq> n) es) k = map_of es k"
      by (rule map_of_filter_other)
    moreover have "valid_name k \<and> (\<exists>m. map_of es k = Some m \<and> \<not> is_dir_node m)"
      using Cons.prems(4) k by simp
    ultimately show "valid_name k
        \<and> (\<exists>m. map_of (filter (\<lambda>e. fst e \<noteq> n) es) k = Some m \<and> \<not> is_dir_node m)"
      by simp
  qed
  have ih: "for_each ns (\<lambda>fname. os_remove (gv @ ''/'' @ fname)) w1
            = (Inr (), w1\<lparr>root := modify (P @ [v]) (filter (\<lambda>e. fst e \<notin> set ns)) (root w1),
                          trace := trace w1 @ map (\<lambda>fname. Os_remove (gv @ ''/'' @ fname)) ns\<rparr>)"
    using Cons.IH [OF ne1 l1 d1 e1] .
  have fl: "(\<lambda>es. filter (\<lambda>e. fst e \<notin> set ns) (filter (\<lambda>e. fst e \<noteq> n) es))
            = filter (\<lambda>e. fst e \<notin> set (n # ns))"
    by (auto simp: fun_eq_iff intro: filter_cong)
  have "modify (P @ [v]) (filter (\<lambda>e. fst e \<notin> set ns)) (root w1)
        = modify (P @ [v]) (filter (\<lambda>e. fst e \<notin> set (n # ns))) (root w)"
    by (simp add: w1_def modify_modify fl)
  then show ?case
    using rm ih by (simp add: bind_io_def w1_def)
qed

lemma delete_dir_flat:
  assumes ne: "names_entry w gv P v" and d: "lookup (root w) (P @ [v]) = Some (Dir s es)"
    and fe: "flat_entries es"
  shows "delete_dir gv w
         = (Inr (), w\<lparr>root := modify P (filter (\<lambda>e. fst e \<noteq> v)) (root w),
                       trace := trace w @ [Log WARNING (''Deleting files in: '' @ gv)]
                                @ map (\<lambda>fname. Os_remove (gv @ ''/'' @ fname)) (map fst es)
                                @ [Log WARNING (''Deleting directory: '' @ gv), Os_rmdir gv]\<rparr>)"
proof -
  define w0 where "w0 = w\<lparr>trace := trace w @ [Log WARNING (''Deleting files in: '' @ gv)]\<rparr>"
  have ne0: "names_entry w0 gv P v"
    by (rule names_entry_agree [OF ne]) (simp_all add: w0_def)
  have l0: "lookup (root w0) (P @ [v]) = Some (Dir s es)"
    using d by (simp add: w0_def)
  have ls: "os_listdir w0 gv = Inr (map fst es)"
    using os_listdir_entry [OF ne0 l0] .
  have ent: "\<forall>n \<in> set (map fst es). valid_name n
               \<and> (\<exists>m. map_of es n = Some m \<and> \<not> is_dir_node m)"
  proof
    fix n assume "n \<in> set (map fst es)"
    then obtain m where m: "(n, m) \<in> set es" by auto
    then have "map_of es n = Some m"
      using fe by (simp add: flat_entries_def)
    moreover have "valid_name n \<and> \<not> is_dir_node m"
      using fe m by (auto simp: flat_entries_def list_all_iff)
    ultimately show "valid_name n \<and> (\<exists>m. map_of es n = Some m \<and> \<not> is_dir_node m)"
      by blast
  qed
  let ?f = "filter (\<lambda>e. fst e \<notin> set (map fst es))"
  define w2 where "w2 = w0\<lparr>root := modify (P @ [v]) ?f (root w0),
                            trace := trace w0 @ map (\<lambda>fname. Os_remove (gv @ ''/'' @ fname))
                                                    (map fst es)\<rparr>"
  have loop: "for_each (map fst es) (\<lambda>fname. os_remove (gv @ ''/'' @ fname)) w0 = (Inr (), w2)"
    using for_each_remove [OF ne0 l0 _ ent] fe
    by (simp add: flat_entries_def w2_def)
  define w3 where "w3 = w2\<lparr>trace := trace w2 @ [Log WARNING (''Deleting directory: '' @ gv)]\<rparr>"
  have ne3: "names_entry w3 gv P v"
    by (rule names_entry_modify_child [OF ne0]) (simp_all add: w3_def w2_def)
  have "?f es = []"
    by (induction es) auto
  then have l3: "lookup (root w3) (P @ [v]) = Some (Dir s [])"
    using lookup_modify_same [OF l0, of ?f] by (simp add: w3_def w2_def)
  have rd: "os_rmdir gv w3
            = (Inr (), w3\<lparr>root := modify P (filter (\<lambda>e. fst e \<noteq> v)) (root w3),
                          trace := trace w3 @ [Os_rmdir gv]\<rparr>)"
    using os_rmdir_entry [OF ne3 l3] .
  have rt: "modify P (filter (\<lambda>e. fst e \<noteq> v)) (root w3)
            = modify P (filter (\<lambda>e. fst e \<noteq> v)) (root w)"
    by (simp add: w3_def w2_def w0_def modify_snoc modify_modify filter_map_entry)
  have a: "logger WARNING (''Deleting files in: '' @ gv) w = (Inr (), w0)"
    by (simp add: logger_def emit_def w0_def)
  have b: "reading (\<lambda>w. os_listdir w gv) w0 = (Inr (map fst es), w0)"
    using ls by (simp add: reading_def)
  have c: "logger WARNING (''Deleting directory: '' @ gv) w2 = (Inr (), w3)"
    by (simp add: logger_def emit_def w3_def)
  have run: "delete_dir gv w
             = (Inr (), w3\<lparr>root := modify P (filter (\<lambda>e. fst e \<noteq> v)) (root w3),
                           trace := trace w3 @ [Os_rmdir gv]\<rparr>)"
    by (simp only: delete_dir_def bind_io_def a b loop c rd prod.case sum.case)
  have "w3\<lparr>root := modify P (filter (\<lambda>e. fst e \<noteq> v)) (root w3),
            trace := trace w3 @ [Os_rmdir gv]\<rparr>
        = w\<lparr>root := modify P (filter (\<lambda>e. fst e \<noteq> v)) (root w),
             trace := trace w @ [Log WARNING (''Deleting files in: '' @ gv)]
                      @ map (\<lambda>fname. Os_remove (gv @ ''/'' @ fname)) (map fst es)
                      @ [Log WARNING (''Deleting directory: '' @ gv), Os_rmdir gv]\<rparr>"
    unfolding rt by (simp add: w3_def w2_def w0_def)
  with run show ?thesis by simp
qed

lemma symlink_entry:
  assumes ne: "names_entry w p P v" and d: "lookup (root w) (P @ [v]) = None"
    and t: "target \<noteq> []"
  shows "symlink target p w
         = (Inr (), w\<lparr>root := modify P (\<lambda>es. es @ [(v, Symlink target)]) (root w),
                       trace := trace w @ [Log WARNING (''Symlinking '' @ p @ '' to: '' @ target),
                                           Os_symlink target p]\<rparr>)"
proof -
  define w0 where "w0 = w\<lparr>trace := trace w @ [Log WARNING (''Symlinking '' @ p @ '' to: '' @ target)]\<rparr>"
  have a: "logger WARNING (''Symlinking '' @ p @ '' to: '' @ target) w = (Inr (), w0)"
    by (simp add: logger_def emit_def w0_def)
  have ne0: "names_entry w0 p P v"
    by (rule names_entry_agree [OF ne]) (simp_all add: w0_def)
  have l0: "lookup (root w0) (P @ [v]) = None"
    using d by (simp add: w0_def)
  have run: "symlink target p w
             = (Inr (), w0\<lparr>root := modify P (\<lambda>es. es @ [(v, Symlink target)]) (root w0),
                           trace := trace w0 @ [Os_symlink target p]\<rparr>)"
    by (simp only: symlink_def bind_io_def a os_symlink_entry [OF ne0 l0 t] prod.case sum.case)
  then show ?thesis by (simp add: w0_def)
qed

subsection \<open>The path of a version below its dataset directory\<close>

lemma walk_path_drop_empty:
  "walk_path r n cur (cs @ ['''']) = Inr P \<Longrightarrow> walk_path r n cur cs = Inr P"
proof (induction r n cur cs rule: walk_path.induct)
  case (1 r n cur)
  then show ?case by (auto split: option.splits node.splits)
next
  case (2 r n cur c cs)
  note w = "2.prems"(1)
  obtain s es where d: "lookup r cur = Some (Dir s es)"
    using w by (auto split: if_splits option.splits node.splits)
  show ?case
  proof (cases "c = [] \<or> c = ''.''")
    case True
    then show ?thesis
      using "2.IH"(1) [OF True d] w d by auto
  next
    case nc: False
    show ?thesis
    proof (cases "c = ''..''")
      case True
      then show ?thesis
        using "2.IH"(2) [OF nc True d] w d nc by auto
    next
      case nd: False
      obtain m' where sm: "map_of es c = Some m'"
        using w nc nd d by (auto split: option.splits)
      show ?thesis
      proof (cases m')
        case (Symlink t)
        have n0: "n \<noteq> 0" and t0: "t \<noteq> []"
          using w nc nd d sm Symlink by (auto split: if_splits)
        have "walk_path r (n - 1) (if is_abs t then [] else cur) ((split_slash t @ cs) @ [''''])
              = Inr P"
          using w nc nd d sm Symlink n0 t0 by simp
        then have "walk_path r (n - 1) (if is_abs t then [] else cur) (split_slash t @ cs) = Inr P"
          using "2.IH"(4) [OF nc nd d refl sm Symlink n0 t0] by blast
        then show ?thesis
          using nc nd d sm Symlink n0 t0 by simp
      next
        case (File sz dg)
        have "walk_path r n (cur @ [c]) (cs @ ['''']) = Inr P"
          using w nc nd d sm File by simp
        then have "walk_path r n (cur @ [c]) cs = Inr P"
          using "2.IH"(3) [OF nc nd d refl sm File] by blast
        then show ?thesis
          using nc nd d sm File by simp
      next
        case (Dir sz es2)
        have "walk_path r n (cur @ [c]) (cs @ ['''']) = Inr P"
          using w nc nd d sm Dir by simp
        then have "walk_path r n (cur @ [c]) cs = Inr P"
          using "2.IH"(5) [OF nc nd d refl sm Dir] by blast
        then show ?thesis
          using nc nd d sm Dir by simp
      qed
    qed
  qed
qed

lemma walk_outside_prefix:
  "walk_outside r n cur (cs @ ds) G \<Longrightarrow> walk_outside r n cur cs G"
proof (induction r n cur cs G rule: walk_outside.induct)
  case (1 r n cur G)
  then show ?case by simp
next
  case (2 r n cur c cs G)
  note w = "2.prems"(1)
  have np: "\<not> prefix G cur"
    using w by simp
  show ?case
  proof (cases "\<exists>s es. lookup r cur = Some (Dir s es)")
    case False
    then show ?thesis
      using np by (auto split: option.splits node.splits)
  next
    case True
    then obtain s es where d: "lookup r cur = Some (Dir s es)" by blast
    show ?thesis
    proof (cases "c = [] \<or> c = ''.''")
      case True
      then show ?thesis
        using "2.IH"(1) [OF True d] w d np by auto
    next
      case nc: False
      show ?thesis
      proof (cases "c = ''..''")
        case True
        then show ?thesis
          using "2.IH"(2) [OF nc True d] w d np nc by auto
      next
        case nd: False
        have ng: "cur @ [c] \<noteq> G"
          using w nc nd d by simp
        show ?thesis
        proof (cases "map_of es c")
          case None
          then show ?thesis using nc nd d np ng by simp
        next
          case (Some m)
          show ?thesis
          proof (cases m)
            case (Symlink t)
            show ?thesis
            proof (cases "n = 0 \<or> t = []")
              case True
              then show ?thesis using Some Symlink nc nd d np ng by auto
            next
              case False
              then have n0: "n \<noteq> 0" and t0: "t \<noteq> []" by simp_all
              have "walk_outside r (n - 1) (if is_abs t then [] else cur)
                      ((split_slash t @ cs) @ ds) G"
                using w Some Symlink nc nd d n0 t0 by simp
              then have "walk_outside r (n - 1) (if is_abs t then [] else cur)
                           (split_slash t @ cs) G"
                using "2.IH"(4) [OF nc nd d refl Some Symlink n0 t0] by blast
              then show ?thesis
                using Some Symlink nc nd d np ng n0 t0 by simp
            qed
          next
            case (File sz dg)
            have "walk_outside r n (cur @ [c]) (cs @ ds) G"
              using w Some File nc nd d by simp
            then have "walk_outside r n (cur @ [c]) cs G"
              using "2.IH"(3) [OF nc nd d refl Some File] by blast
            then show ?thesis
              using Some File nc nd d np ng by simp
          next
            case (Dir sz es2)
            have "walk_outside r n (cur @ [c]) (cs @ ds) G"
              using w Some Dir nc nd d by simp
            then have "walk_outside r n (cur @ [c]) cs G"
              using "2.IH"(5) [OF nc nd d refl Some Dir] by blast
            then show ?thesis
              using Some Dir nc nd d np ng by simp
          qed
        qed
      qed
    qed
  qed
qed

lemma names_entry_join:
  assumes v: "valid_name v" and rs: "resolve w a = Inr P"
    and wo: "walk_outside (root w) max_links (start_dir w a) (split_slash a) (P @ [v])"
    and d: "lookup (root w) (P @ [v]) = Some m"
  shows "names_entry w (os_path_join a v) P v"
proof -
  from v have v0: "v \<noteq> []" "CHR ''/'' \<notin> set v"
    by (simp_all add: valid_name_def)
  then have hd: "take 1 v \<noteq> ''/''"
    by (cases v) auto
  have a0: "a \<noteq> []" and wk: "walk_path (root w) max_links (start_dir w a) (split_slash a) = Inr P"
    using rs by (auto simp: resolve_def start_dir_def split: if_splits)
  obtain s es where "lookup (root w) P = Some (Dir s es)"
    using lookup_child_Some [OF d] by blast
  then have sh: "shape_of (lookup (root w) P) = A_dir" by simp
  have st: "start_dir w (os_path_join a v) = start_dir w a"
    using a0 hd by (cases a) (auto simp: start_dir_def is_abs_def os_path_join_def)
  have "butlast (split_slash (os_path_join a v)) @ ds = split_slash a"
    if "ds = (if last a = CHR ''/'' then [''''] else [])" for ds
  proof (cases "last a = CHR ''/''")
    case True
    then have e: "last (split_slash a) = []"
      by (simp add: last_split_slash_empty)
    then have "split_slash a = butlast (split_slash a) @ ['''']"
      using split_slash_nonempty [of a] by (metis append_butlast_last_id)
    then show ?thesis
      using True that hd v0 e by (simp add: os_path_join_def split_slash_append_name)
  next
    case False
    then show ?thesis
      using that hd v0 a0 by (simp add: os_path_join_def split_slash_append split_slash_single)
  qed
  then obtain ds where ds: "butlast (split_slash (os_path_join a v)) @ ds = split_slash a"
    and dse: "ds = [''''] \<or> ds = []"
    by (metis (full_types))
  have wk': "walk_path (root w) max_links (start_dir w a)
               (butlast (split_slash (os_path_join a v))) = Inr P"
    using wk ds dse walk_path_drop_empty by (metis append_Nil2)
  have wo': "walk_outside (root w) max_links (start_dir w a)
               (butlast (split_slash (os_path_join a v))) (P @ [v])"
    using wo ds walk_outside_prefix by metis
  show ?thesis
    using join_name [OF v, of a] v wk' wo' sh st by (simp add: names_entry_def)
qed

subsection \<open>The step for a stale version\<close>

text \<open>
  C5. Let the working version \<open>v\<close> be older than the archive's latest, let the dataset
  directory \<open>W\<close> resolve to a directory \<open>P\<close> along a path that does not pass through \<open>P/v\<close>,
  and let \<open>P/v\<close> be a real directory, not a link, that holds no subdirectory; \<open>v\<close> is a name
  that a directory listing can return. Then the step of the engine for \<open>v\<close>, which a run
  takes when its loop reaches \<open>v\<close>, removes each entry of \<open>W/v\<close>, then the directory, and then
  creates the link \<open>W/v\<close> whose target is the path \<open>A/v\<close> as a string. The trace holds these
  calls and calls to the logger only: no size is read, no content is read.
\<close>

theorem stale_version_replaced_by_link:
  assumes "latest arc_dir = PyStr l" and "gws_version < l"
    and "valid_name gws_version"
    and "resolve w gws_dr = Inr P"
    and "walk_outside (root w) max_links (start_dir w gws_dr) (split_slash gws_dr)
           (P @ [gws_version])"
    and "lookup (root w) (P @ [gws_version]) = Some (Dir s es)"
    and "flat_entries es"
  shows "process_version bd1 bd2 gws_dr arc_dir gws_version w
         = (Inr (),
            w\<lparr>root := modify P
                         (\<lambda>es. filter (\<lambda>e. fst e \<noteq> gws_version) es
                               @ [(gws_version, Symlink (os_path_join (dr arc_dir) gws_version))])
                         (root w),
              trace := trace w
                @ [Log DEBUG (''[INFO] Working on: '' @ os_path_join gws_dr gws_version),
                   Log DEBUG (''              and: '' @ os_path_join (dr arc_dir) gws_version),
                   Log WARNING (''Deleting files in: '' @ os_path_join gws_dr gws_version)]
                @ map (\<lambda>fname. Os_remove (os_path_join gws_dr gws_version @ ''/'' @ fname))
                      (map fst es)
                @ [Log WARNING (''Deleting directory: '' @ os_path_join gws_dr gws_version),
                   Os_rmdir (os_path_join gws_dr gws_version),
                   Log WARNING (''Symlinking '' @ os_path_join gws_dr gws_version @ '' to: ''
                                @ os_path_join (dr arc_dir) gws_version),
                   Os_symlink (os_path_join (dr arc_dir) gws_version)
                              (os_path_join gws_dr gws_version),
                   Log WARNING (''[ACTION] Deleted old version in GWS: ''
                                @ os_path_join gws_dr gws_version)]\<rparr>)
       \<and> lstat (snd (process_version bd1 bd2 gws_dr arc_dir gws_version w))
               (os_path_join gws_dr gws_version)
           = Inr (Symlink (os_path_join (dr arc_dir) gws_version))"
proof -
  let ?gv = "os_path_join gws_dr gws_version" and ?av = "os_path_join (dr arc_dir) gws_version"
  let ?g = gws_version
  have ne: "names_entry w ?gv P ?g"
    using assms(3,4,5,6) by (rule names_entry_join)
  have av: "?av \<noteq> []"
    using assms(3) by (rule join_name(1))
  define w2 where "w2 = w\<lparr>trace := trace w @ [Log DEBUG (''[INFO] Working on: '' @ ?gv),
                                               Log DEBUG (''              and: '' @ ?av)]\<rparr>"
  define w3 where "w3 = w2\<lparr>root := modify P (filter (\<lambda>e. fst e \<noteq> ?g)) (root w2),
                            trace := trace w2 @ [Log WARNING (''Deleting files in: '' @ ?gv)]
                                     @ map (\<lambda>fname. Os_remove (?gv @ ''/'' @ fname)) (map fst es)
                                     @ [Log WARNING (''Deleting directory: '' @ ?gv), Os_rmdir ?gv]\<rparr>"
  define w4 where "w4 = w3\<lparr>root := modify P (\<lambda>es. es @ [(?g, Symlink ?av)]) (root w3),
                            trace := trace w3 @ [Log WARNING (''Symlinking '' @ ?gv @ '' to: '' @ ?av),
                                                 Os_symlink ?av ?gv]\<rparr>"
  define w5 where "w5 = w4\<lparr>trace := trace w4
                             @ [Log WARNING (''[ACTION] Deleted old version in GWS: '' @ ?gv)]\<rparr>"
  obtain sp esp where xp: "lookup (root w) P = Some (Dir sp esp)"
    using lookup_child_Some [OF assms(6)] by blast
  have kp: "\<And>es k. k \<noteq> ?g \<Longrightarrow> map_of (filter (\<lambda>e. fst e \<noteq> ?g) es) k = map_of es k"
    by (rule map_of_filter_other)
  have ka: "\<And>es k. k \<noteq> ?g \<Longrightarrow> map_of (es @ [(?g, Symlink ?av)]) k = map_of es k"
    by (simp add: map_add_def split: option.splits)
  have ne2: "names_entry w2 ?gv P ?g"
    by (rule names_entry_agree [OF ne]) (simp_all add: w2_def)
  have l2: "lookup (root w2) (P @ [?g]) = Some (Dir s es)"
    using assms(6) by (simp add: w2_def)
  have dd: "delete_dir ?gv w2 = (Inr (), w3)"
    using delete_dir_flat [OF ne2 l2 assms(7)] by (simp add: w3_def)
  have ne3: "names_entry w3 ?gv P ?g"
    by (rule names_entry_modify [OF ne2 kp]) (simp_all add: w3_def)
  have lp3: "lookup (root w3) P = Some (Dir sp (filter (\<lambda>e. fst e \<noteq> ?g) esp))"
    using lookup_modify_same [OF xp] by (simp add: w3_def w2_def)
  have l3: "lookup (root w3) (P @ [?g]) = None"
    using lookup_child [OF lp3, of ?g] by (simp add: map_of_filter_self)
  have sl: "symlink ?av ?gv w3 = (Inr (), w4)"
    using symlink_entry [OF ne3 l3 av] by (simp add: w4_def)
  have a1: "logger DEBUG (''[INFO] Working on: '' @ ?gv) w
            = (Inr (), w\<lparr>trace := trace w @ [Log DEBUG (''[INFO] Working on: '' @ ?gv)]\<rparr>)"
    by (simp add: logger_def emit_def)
  have a2: "logger DEBUG (''              and: '' @ ?av)
              (w\<lparr>trace := trace w @ [Log DEBUG (''[INFO] Working on: '' @ ?gv)]\<rparr>)
            = (Inr (), w2)"
    by (simp add: logger_def emit_def w2_def)
  have a3: "reading (\<lambda>w. str_less gws_version (latest arc_dir)) w2 = (Inr True, w2)"
    using assms(1,2) by (simp add: reading_def str_less_def)
  have a4: "logger WARNING (''[ACTION] Deleted old version in GWS: '' @ ?gv) w4 = (Inr (), w5)"
    by (simp add: logger_def emit_def w5_def)
  have run: "process_version bd1 bd2 gws_dr arc_dir gws_version w = (Inr (), w5)"
    by (simp only: process_version_def Let_def bind_io_def a1 a2 a3 dd sl a4
                   prod.case sum.case if_True)
  have fin: "w5 = w\<lparr>root := modify P (\<lambda>es. filter (\<lambda>e. fst e \<noteq> ?g) es @ [(?g, Symlink ?av)])
                                   (root w),
                    trace := trace w
                      @ [Log DEBUG (''[INFO] Working on: '' @ ?gv),
                         Log DEBUG (''              and: '' @ ?av),
                         Log WARNING (''Deleting files in: '' @ ?gv)]
                      @ map (\<lambda>fname. Os_remove (?gv @ ''/'' @ fname)) (map fst es)
                      @ [Log WARNING (''Deleting directory: '' @ ?gv),
                         Os_rmdir ?gv,
                         Log WARNING (''Symlinking '' @ ?gv @ '' to: '' @ ?av),
                         Os_symlink ?av ?gv,
                         Log WARNING (''[ACTION] Deleted old version in GWS: '' @ ?gv)]\<rparr>"
    by (simp add: w5_def w4_def w3_def w2_def modify_modify)
  have ne5: "names_entry w5 ?gv P ?g"
    by (rule names_entry_modify [OF ne3 ka]) (simp_all add: w5_def w4_def)
  have lp5: "lookup (root w5) P
             = Some (Dir sp (filter (\<lambda>e. fst e \<noteq> ?g) esp @ [(?g, Symlink ?av)]))"
    using lookup_modify_same [OF xp] by (simp add: fin)
  have "map_of (filter (\<lambda>e. fst e \<noteq> ?g) esp @ [(?g, Symlink ?av)]) ?g = Some (Symlink ?av)"
    by (simp add: map_add_def map_of_filter_self)
  then have "lookup (root w5) (P @ [?g]) = Some (Symlink ?av)"
    using lookup_child [OF lp5, of ?g] by simp
  then have "lstat w5 ?gv = Inr (Symlink ?av)"
    using locate_entry [OF ne5] by (simp add: lstat_def)
  then show ?thesis
    using run fin by simp
qed

theorem stale_version_replaced_by_link_witness:
  "process_version ''/gws'' ''/arc'' ''/gws/ds'' arc_stale ''v20200101'' world_stale
   = (Inr (),
      world_of tree_stale_once
         [Log DEBUG ''[INFO] Working on: /gws/ds/v20200101'',
          Log DEBUG ''              and: /arc/ds/v20200101'',
          Log WARNING ''Deleting files in: /gws/ds/v20200101'',
          Os_remove ''/gws/ds/v20200101/a.nc'',
          Log WARNING ''Deleting directory: /gws/ds/v20200101'',
          Os_rmdir ''/gws/ds/v20200101'',
          Log WARNING ''Symlinking /gws/ds/v20200101 to: /arc/ds/v20200101'',
          Os_symlink ''/arc/ds/v20200101'' ''/gws/ds/v20200101'',
          Log WARNING ''[ACTION] Deleted old version in GWS: /gws/ds/v20200101''])
   \<and> lstat (snd (process_version ''/gws'' ''/arc'' ''/gws/ds'' arc_stale ''v20200101'' world_stale))
           ''/gws/ds/v20200101''
       = Inr (Symlink ''/arc/ds/v20200101'')"
proof -
  have h1: "latest arc_stale = PyStr ''v20200102''"
    by (simp add: arc_stale_def)
  have h2: "''v20200101'' < ''v20200102''"
    by simp
  have h3: "valid_name ''v20200101''"
    by (simp add: valid_name_def)
  have h4: "resolve world_stale ''/gws/ds'' = Inr [''gws'', ''ds'']"
    by (simp add: prim_defs world_stale_def tree_stale_def)
  have h5: "walk_outside (root world_stale) max_links (start_dir world_stale ''/gws/ds'')
              (split_slash ''/gws/ds'') ([''gws'', ''ds''] @ [''v20200101''])"
    by (simp add: prim_defs start_dir_def world_stale_def tree_stale_def)
  have h6: "lookup (root world_stale) ([''gws'', ''ds''] @ [''v20200101''])
            = Some (Dir 4096 [(''a.nc'', File 5 ''d41d'')])"
    by (simp add: world_stale_def world_of_def tree_stale_def)
  have h7: "flat_entries [(''a.nc'', File 5 ''d41d'')]"
    by (simp add: flat_entries_def valid_name_def)
  have j: "os_path_join ''/gws/ds'' ''v20200101'' = ''/gws/ds/v20200101''"
          "os_path_join (dr arc_stale) ''v20200101'' = ''/arc/ds/v20200101''"
    by (simp_all add: os_path_join_def arc_stale_def)
  have t: "world_stale
            \<lparr>root := modify [''gws'', ''ds'']
                       (\<lambda>es. filter (\<lambda>e. fst e \<noteq> ''v20200101'') es
                             @ [(''v20200101'', Symlink ''/arc/ds/v20200101'')])
                       (root world_stale),
             trace := tr\<rparr>
           = world_of tree_stale_once tr" for tr
    by (simp add: world_stale_def world_of_def tree_stale_def tree_stale_once_def)
  have tr: "trace world_stale = []"
    by (simp add: world_stale_def world_of_def)
  note r = stale_version_replaced_by_link [OF h1 h2 h3 h4 h5 h6 h7, of "''/gws''" "''/arc''",
                                            unfolded j t tr]
  have c1: "process_version ''/gws'' ''/arc'' ''/gws/ds'' arc_stale ''v20200101'' world_stale
            = (Inr (),
               world_of tree_stale_once
                  [Log DEBUG ''[INFO] Working on: /gws/ds/v20200101'',
                   Log DEBUG ''              and: /arc/ds/v20200101'',
                   Log WARNING ''Deleting files in: /gws/ds/v20200101'',
                   Os_remove ''/gws/ds/v20200101/a.nc'',
                   Log WARNING ''Deleting directory: /gws/ds/v20200101'',
                   Os_rmdir ''/gws/ds/v20200101'',
                   Log WARNING ''Symlinking /gws/ds/v20200101 to: /arc/ds/v20200101'',
                   Os_symlink ''/arc/ds/v20200101'' ''/gws/ds/v20200101'',
                   Log WARNING ''[ACTION] Deleted old version in GWS: /gws/ds/v20200101''])"
    using r by simp
  have c2: "lstat (snd (process_version ''/gws'' ''/arc'' ''/gws/ds'' arc_stale ''v20200101''
                          world_stale))
                  ''/gws/ds/v20200101''
            = Inr (Symlink ''/arc/ds/v20200101'')"
    using r by blast
  show ?thesis
    using c1 c2 by blast
qed

lemma nested_main:
  "main ''/gws'' ''/arc'' world_nested
   = (Inl IsADirectoryError,
      world_of
        (Dir 4096
          [(''gws'', Dir 4096
             [(''ds'', Dir 4096
                [(''v20200101'', Dir 4096
                   [(''sub'', Dir 4096 [(''b.nc'', File 6 ''9e10'')])])])]),
           (''arc'', Dir 4096
             [(''ds'', Dir 4096
                [(''v20200101'', Dir 4096
                   [(''a.nc'', File 5 ''d41d''),
                    (''sub'', Dir 4096 [(''b.nc'', File 6 ''9e10'')])]),
                 (''v20200102'', Dir 4096 [(''a.nc'', File 7 ''c0ff'')]),
                 (''latest'', Symlink ''v20200102'')])])])
        [Log DEBUG ''[INFO] Working on: /gws/ds/v20200101'',
         Log DEBUG ''              and: /arc/ds/v20200101'',
         Log WARNING ''Deleting files in: /gws/ds/v20200101'',
         Os_remove ''/gws/ds/v20200101/a.nc''])"
  by (simp add: engine_defs io_defs prim_defs world_nested_def tree_nested_def)

lemma blocked_main:
  "main ''/gws'' ''/arc'' world_blocked
   = (Inl IsADirectoryError,
      world_of tree_blocked
        [Log DEBUG ''[INFO] Working on: /gws/ds/v20200102'',
         Log DEBUG ''              and: /arc/ds/v20200102'',
         Log WARNING ''Deleting files in: /gws/ds/v20200102''])"
  by (simp add: engine_defs io_defs prim_defs world_blocked_def tree_blocked_def)

lemma through_main:
  "main ''/gws/ds/v20200101/..'' ''/arc/ds'' world_stale
   = (Inl FileNotFoundError,
      world_of tree_stale_removed
        [Log DEBUG ''[INFO] Working on: /gws/ds/v20200101/../v20200101'',
         Log DEBUG ''              and: /arc/ds/v20200101'',
         Log WARNING ''Deleting files in: /gws/ds/v20200101/../v20200101'',
         Os_remove ''/gws/ds/v20200101/../v20200101/a.nc'',
         Log WARNING ''Deleting directory: /gws/ds/v20200101/../v20200101'',
         Os_rmdir ''/gws/ds/v20200101/../v20200101'',
         Log WARNING ''Symlinking /gws/ds/v20200101/../v20200101 to: /arc/ds/v20200101''])"
  by (simp add: engine_defs io_defs prim_defs world_stale_def tree_stale_def
                tree_stale_removed_def)

lemma nested_facts:
  "find_versions world_nested ''/gws/ds'' = [''v20200101'']"
  "fst (ArchiveDir ''/arc/ds'' world_nested) = Inr arc_stale"
  "resolve world_nested ''/gws/ds'' = Inr [''gws'', ''ds'']"
  "walk_outside (root world_nested) max_links (start_dir world_nested ''/gws/ds'')
     (split_slash ''/gws/ds'') [''gws'', ''ds'', ''v20200101'']"
  by (simp_all add: engine_defs io_defs prim_defs start_dir_def world_nested_def tree_nested_def
                    arc_stale_def)

lemma blocked_facts:
  "find_versions world_blocked ''/gws/ds'' = [''v20200101'', ''v20200102'']"
  "fst (ArchiveDir ''/arc/ds'' world_blocked) = Inr arc_blocked"
  "resolve world_blocked ''/gws/ds'' = Inr [''gws'', ''ds'']"
  "walk_outside (root world_blocked) max_links (start_dir world_blocked ''/gws/ds'')
     (split_slash ''/gws/ds'') [''gws'', ''ds'', ''v20200101'']"
  "lookup (root world_blocked) [''gws'', ''ds'', ''v20200101'']
   = Some (Dir 4096 [(''a.nc'', File 5 ''d41d'')])"
  by (simp_all add: engine_defs io_defs prim_defs start_dir_def world_blocked_def
                    tree_blocked_def arc_blocked_def)

lemma through_facts:
  "find_versions world_stale ''/gws/ds/v20200101/..'' = [''v20200101'']"
  "fst (ArchiveDir ''/arc/ds'' world_stale) = Inr arc_stale"
  "resolve world_stale ''/gws/ds/v20200101/..'' = Inr [''gws'', ''ds'']"
  "\<not> walk_outside (root world_stale) max_links (start_dir world_stale ''/gws/ds/v20200101/..'')
       (split_slash ''/gws/ds/v20200101/..'') [''gws'', ''ds'', ''v20200101'']"
  "lookup (root world_stale) [''gws'', ''ds'', ''v20200101'']
   = Some (Dir 4096 [(''a.nc'', File 5 ''d41d'')])"
  by (simp_all add: engine_defs io_defs prim_defs start_dir_def world_stale_def
                    tree_stale_def arc_stale_def)

text \<open>The claim as stated covers every stale working version and speaks of the run. Three
  runs on a valid archive with a stale working version show what it leaves out.

  When \<open>W/v\<close> holds a subdirectory, the run removes the file listed before it and stops with
  an exception at \<open>os.remove\<close> of the subdirectory: \<open>W/v\<close> stays a directory and no link is
  created.

  When a newer stale version holds a subdirectory, the run stops there: an older stale
  version that holds one file only is never reached and stays as it was.

  When the path of \<open>W\<close> passes through \<open>W/v\<close>, here as \<open>/gws/ds/v20200101/..\<close>, the directory is
  emptied and removed, and \<open>os.symlink\<close> then fails because its path no longer resolves:
  neither the directory nor a link is left.\<close>

theorem stale_version_with_subdirectory_counterexample:
  "(find_versions world_nested ''/gws/ds'' = [''v20200101'']
    \<and> fst (ArchiveDir ''/arc/ds'' world_nested) = Inr arc_stale
    \<and> valid arc_stale \<and> str_less ''v20200101'' (latest arc_stale) = Inr True
    \<and> resolve world_nested ''/gws/ds'' = Inr [''gws'', ''ds'']
    \<and> walk_outside (root world_nested) max_links (start_dir world_nested ''/gws/ds'')
         (split_slash ''/gws/ds'') [''gws'', ''ds'', ''v20200101'']
    \<and> fst (main ''/gws'' ''/arc'' world_nested) = Inl IsADirectoryError
    \<and> mutations (trace (snd (main ''/gws'' ''/arc'' world_nested)))
        = [Os_remove ''/gws/ds/v20200101/a.nc'']
    \<and> lstat (snd (main ''/gws'' ''/arc'' world_nested)) ''/gws/ds/v20200101''
        = Inr (Dir 4096 [(''sub'', Dir 4096 [(''b.nc'', File 6 ''9e10'')])]))
   \<and> (find_versions world_blocked ''/gws/ds'' = [''v20200101'', ''v20200102'']
      \<and> fst (ArchiveDir ''/arc/ds'' world_blocked) = Inr arc_blocked
      \<and> valid arc_blocked \<and> str_less ''v20200101'' (latest arc_blocked) = Inr True
      \<and> resolve world_blocked ''/gws/ds'' = Inr [''gws'', ''ds'']
      \<and> walk_outside (root world_blocked) max_links (start_dir world_blocked ''/gws/ds'')
           (split_slash ''/gws/ds'') [''gws'', ''ds'', ''v20200101'']
      \<and> lookup (root world_blocked) [''gws'', ''ds'', ''v20200101'']
          = Some (Dir 4096 [(''a.nc'', File 5 ''d41d'')])
      \<and> flat_entries [(''a.nc'', File 5 ''d41d'')]
      \<and> fst (main ''/gws'' ''/arc'' world_blocked) = Inl IsADirectoryError
      \<and> mutations (trace (snd (main ''/gws'' ''/arc'' world_blocked))) = []
      \<and> lstat (snd (main ''/gws'' ''/arc'' world_blocked)) ''/gws/ds/v20200101''
          = Inr (Dir 4096 [(''a.nc'', File 5 ''d41d'')]))
   \<and> (find_versions world_stale ''/gws/ds/v20200101/..'' = [''v20200101'']
      \<and> fst (ArchiveDir ''/arc/ds'' world_stale) = Inr arc_stale
      \<and> resolve world_stale ''/gws/ds/v20200101/..'' = Inr [''gws'', ''ds'']
      \<and> \<not> walk_outside (root world_stale) max_links
             (start_dir world_stale ''/gws/ds/v20200101/..'')
             (split_slash ''/gws/ds/v20200101/..'') [''gws'', ''ds'', ''v20200101'']
      \<and> lookup (root world_stale) [''gws'', ''ds'', ''v20200101'']
          = Some (Dir 4096 [(''a.nc'', File 5 ''d41d'')])
      \<and> fst (main ''/gws/ds/v20200101/..'' ''/arc/ds'' world_stale) = Inl FileNotFoundError
      \<and> mutations (trace (snd (main ''/gws/ds/v20200101/..'' ''/arc/ds'' world_stale)))
          = [Os_remove ''/gws/ds/v20200101/../v20200101/a.nc'',
             Os_rmdir ''/gws/ds/v20200101/../v20200101'']
      \<and> lstat (snd (main ''/gws/ds/v20200101/..'' ''/arc/ds'' world_stale))
               ''/gws/ds/v20200101''
          = Inl FileNotFoundError)"
proof -
  have a: "valid arc_stale" "str_less ''v20200101'' (latest arc_stale) = Inr True"
          "valid arc_blocked" "str_less ''v20200101'' (latest arc_blocked) = Inr True"
          "flat_entries [(''a.nc'', File 5 ''d41d'')]"
    by (simp_all add: arc_stale_def arc_blocked_def str_less_def flat_entries_def valid_name_def)
  have n: "mutations (trace (snd (main ''/gws'' ''/arc'' world_nested)))
             = [Os_remove ''/gws/ds/v20200101/a.nc'']"
          "lstat (snd (main ''/gws'' ''/arc'' world_nested)) ''/gws/ds/v20200101''
             = Inr (Dir 4096 [(''sub'', Dir 4096 [(''b.nc'', File 6 ''9e10'')])])"
    unfolding nested_main by (simp_all add: mutations_def prim_defs)
  have b: "mutations (trace (snd (main ''/gws'' ''/arc'' world_blocked))) = []"
          "lstat (snd (main ''/gws'' ''/arc'' world_blocked)) ''/gws/ds/v20200101''
             = Inr (Dir 4096 [(''a.nc'', File 5 ''d41d'')])"
    unfolding blocked_main by (simp_all add: mutations_def prim_defs tree_blocked_def)
  have t: "mutations (trace (snd (main ''/gws/ds/v20200101/..'' ''/arc/ds'' world_stale)))
             = [Os_remove ''/gws/ds/v20200101/../v20200101/a.nc'',
                Os_rmdir ''/gws/ds/v20200101/../v20200101'']"
          "lstat (snd (main ''/gws/ds/v20200101/..'' ''/arc/ds'' world_stale))
                 ''/gws/ds/v20200101''
             = Inl FileNotFoundError"
    unfolding through_main by (simp_all add: mutations_def prim_defs tree_stale_removed_def)
  have m: "fst (main ''/gws'' ''/arc'' world_nested) = Inl IsADirectoryError"
          "fst (main ''/gws'' ''/arc'' world_blocked) = Inl IsADirectoryError"
          "fst (main ''/gws/ds/v20200101/..'' ''/arc/ds'' world_stale) = Inl FileNotFoundError"
    by (simp_all only: nested_main blocked_main through_main fst_conv)
  show ?thesis
    using a n b t m nested_facts blocked_facts through_facts by blast
qed

end
